theory Spec2Isabelle
  imports
    Main
    "HOL-Library.AList"
    "HOL-Library.Char_ord"
    "HOL-Library.List_Lexorder"
    "HOL-Library.Product_Lexorder"
    "HOL-Library.Word"
begin

unbundle bit_operations_syntax

section \<open>Package cardgenerator\<close>

text \<open>
  Go strings are byte sequences; a \<^typ>\<open>string\<close> is a list of 8-bit characters, so the
  catalog entries are written with the UTF-8 bytes of their emoji, as the source file holds them.
\<close>

definition Characters :: "string list" where
  "Characters =
    [ ''Cat card '' @ [CHR 0xF0, CHR 0x9F, CHR 0x98, CHR 0xBC],
      ''Defuse card '' @ [CHR 0xF0, CHR 0x9F, CHR 0x99, CHR 0x85, CHR 0xE2, CHR 0x80, CHR 0x8D,
                          CHR 0xE2, CHR 0x99, CHR 0x82, CHR 0xEF, CHR 0xB8, CHR 0x8F],
      ''Shuffle card '' @ [CHR 0xF0, CHR 0x9F, CHR 0x94, CHR 0x80] @ '' '',
      ''Exploding kitten card '' @ [CHR 0xF0, CHR 0x9F, CHR 0x92, CHR 0xA3] ]"

text \<open>
  A run-time panic of the Go program (an index out of range, a failed type assertion) is a value.
\<close>

datatype panic = IndexOutOfRange | InterfaceConversion

text \<open>
  The generator \<open>r\<close> is seeded from the clock, so nothing is known about its outputs: the model
  takes them as a parameter, \<open>draws k\<close> being the value of the \<open>k\<close>-th call of \<open>r.Int31()\<close>.
  \<open>r.Intn(n)\<close> with \<open>n \<le> 2^31 - 1\<close> is \<open>r.Int31n(n)\<close>, which for a power of two \<open>n\<close> (the
  call site passes 4) masks one output: \<open>r.Int31() & (n - 1)\<close>.
\<close>

definition Intn :: "nat \<Rightarrow> nat \<Rightarrow> nat" where
  "Intn n int31 = int31 AND (n - 1)"

text \<open>\<open>Characters[index]\<close>: an index expression panics out of range.\<close>

definition index_of :: "'a list \<Rightarrow> nat \<Rightarrow> panic + 'a" where
  "index_of xs i = (if i < length xs then Inr (xs ! i) else Inl IndexOutOfRange)"

text \<open>The loop \<open>for i := 0; i < 5; i++\<close> over the deck made by \<open>make([]string, 5)\<close>.\<close>

function deck_loop :: "(nat \<Rightarrow> nat) \<Rightarrow> nat \<Rightarrow> string list \<Rightarrow> panic + string list" where
  "deck_loop draws i randomDeck =
     (if i < 5 then
        (case index_of Characters (Intn 4 (draws i)) of
           Inl p \<Rightarrow> Inl p
         | Inr c \<Rightarrow>
             if i < length randomDeck then deck_loop draws (i + 1) (randomDeck[i := c])
             else Inl IndexOutOfRange)
      else Inr randomDeck)"
  by pat_completeness auto
termination
  by (relation "measure (\<lambda>(draws, i, randomDeck). 5 - i)") auto

declare deck_loop.simps [simp del]

definition GenerateRandomCards :: "(nat \<Rightarrow> nat) \<Rightarrow> panic + string list" where
  "GenerateRandomCards draws = deck_loop draws 0 (replicate 5 [])"

section \<open>The Go library functions the handlers call\<close>

subsection \<open>strconv\<close>

text \<open>
  Go's \<open>int\<close> is taken as 64 bits wide (\<open>strconv.IntSize = 64\<close>). A Go call that returns a
  value and an error returns a pair here; the handlers drop the error with \<open>_\<close> and keep the
  value, so the value returned beside an error matters.
\<close>

datatype num_error = ErrSyntax | ErrRange

definition is_digit :: "char \<Rightarrow> bool" where
  "is_digit c = (CHR ''0'' \<le> c \<and> c \<le> CHR ''9'')"

definition digit_val :: "char \<Rightarrow> nat" where
  "digit_val c = of_char c - 48"

text \<open>The fast path of \<open>Atoi\<close>: \<open>n = n*10 + int(ch)\<close> over the bytes, a non-digit is a syntax error.\<close>

fun atoi_fast_loop :: "string \<Rightarrow> int \<Rightarrow> int option" where
  "atoi_fast_loop [] n = Some n"
| "atoi_fast_loop (ch # s) n =
     (if is_digit ch then atoi_fast_loop s (n * 10 + int (digit_val ch)) else None)"

text \<open>
  The loop of \<open>ParseUint(s, 10, 64)\<close>: it returns at the first overflow with the largest
  \<open>uint64\<close> and \<open>ErrRange\<close>, without looking at the bytes that follow.
\<close>

fun parseUint_loop :: "string \<Rightarrow> nat \<Rightarrow> nat \<times> num_error option" where
  "parseUint_loop [] n = (n, None)"
| "parseUint_loop (c # s) n =
     (if \<not> is_digit c then (0, Some ErrSyntax)
      else if n \<ge> (2 ^ 64 - 1) div 10 + 1 then (2 ^ 64 - 1, Some ErrRange)
      else if n * 10 + digit_val c > 2 ^ 64 - 1 then (2 ^ 64 - 1, Some ErrRange)
      else parseUint_loop s (n * 10 + digit_val c))"

definition ParseUint :: "string \<Rightarrow> nat \<times> num_error option" where
  "ParseUint s = (if s = [] then (0, Some ErrSyntax) else parseUint_loop s 0)"

definition ParseInt :: "string \<Rightarrow> int \<times> num_error option" where
  "ParseInt s0 =
     (if s0 = [] then (0, Some ErrSyntax)
      else
        let neg = (hd s0 = CHR ''-'');
            s = (if hd s0 = CHR ''+'' \<or> hd s0 = CHR ''-'' then tl s0 else s0);
            (un, err) = ParseUint s
        in if err = Some ErrSyntax then (0, err)
           else if \<not> neg \<and> un \<ge> 2 ^ 63 then (2 ^ 63 - 1, Some ErrRange)
           else if neg \<and> un > 2 ^ 63 then (- (2 ^ 63), Some ErrRange)
           else if neg then (- int un, None) else (int un, None))"

definition Atoi :: "string \<Rightarrow> int \<times> num_error option" where
  "Atoi s0 =
     (if 0 < length s0 \<and> length s0 < 19 then
        let s = (if hd s0 = CHR ''-'' \<or> hd s0 = CHR ''+'' then tl s0 else s0)
        in if length s < 1 then (0, Some ErrSyntax)
           else (case atoi_fast_loop s 0 of
                   None \<Rightarrow> (0, Some ErrSyntax)
                 | Some n \<Rightarrow> (if hd s0 = CHR ''-'' then - n else n, None))
      else ParseInt s0)"

definition ParseBool :: "string \<Rightarrow> bool \<times> num_error option" where
  "ParseBool str =
     (if str \<in> set [''1'', ''t'', ''T'', ''true'', ''TRUE'', ''True''] then (True, None)
      else if str \<in> set [''0'', ''f'', ''F'', ''false'', ''FALSE'', ''False''] then (False, None)
      else (False, Some ErrSyntax))"

text \<open>\<open>strconv.AppendInt(b, n, 10)\<close>, by which the store client writes an \<open>int\<close> argument.\<close>

definition digit_char :: "nat \<Rightarrow> char" where
  "digit_char d = char_of (48 + d)"

function digits_of :: "nat \<Rightarrow> string" where
  "digits_of n = (if n < 10 then [digit_char n] else digits_of (n div 10) @ [digit_char (n mod 10)])"
  by pat_completeness auto
termination
  by (relation "measure id") auto

declare digits_of.simps [simp del]

definition FormatInt :: "int \<Rightarrow> string" where
  "FormatInt n = (if n < 0 then CHR ''-'' # digits_of (nat (- n)) else digits_of (nat n))"

subsection \<open>Conversions between \<open>int\<close> and \<open>float64\<close>\<close>

text \<open>
  The only floating-point values of the program are sorted-set scores, each of them
  \<open>float64(score)\<close> of an \<open>int\<close>. Such a value is an integer, so it is modelled by that integer:
  \<open>float64_of_int n\<close> is \<open>n\<close> rounded to 53 significant bits, to nearest and to even on a tie
  (exact up to \<open>2^53\<close> in magnitude).
\<close>

function shift_of :: "nat \<Rightarrow> nat" where
  "shift_of m = (if m < 2 ^ 53 then 0 else Suc (shift_of (m div 2)))"
  by pat_completeness auto
termination
  by (relation "measure id") auto

declare shift_of.simps [simp del]

definition float64_of_nat :: "nat \<Rightarrow> nat" where
  "float64_of_nat m =
     (let e = shift_of m; q = m div 2 ^ e; r = m mod 2 ^ e
      in if 2 * r < 2 ^ e \<or> (2 * r = 2 ^ e \<and> even q) then q * 2 ^ e else (q + 1) * 2 ^ e)"

definition float64_of_int :: "int \<Rightarrow> int" where
  "float64_of_int n =
     (if n < 0 then - int (float64_of_nat (nat (- n))) else int (float64_of_nat (nat n)))"

text \<open>
  \<open>int(f)\<close> of an integral \<open>float64\<close> is \<open>f\<close> when an \<open>int\<close> can hold it. Otherwise the language
  leaves the result to the implementation; the value taken here is the one of amd64, the
  smallest \<open>int\<close>. The only such score the program can write is \<open>2^63\<close>.
\<close>

definition int_of_float64 :: "int \<Rightarrow> int" where
  "int_of_float64 f = (if - (2 ^ 63) \<le> f \<and> f < 2 ^ 63 then f else - (2 ^ 63))"

section \<open>Package main: data\<close>

record LeaderboardEntry =
  UserName :: string
  UserScore :: int

record Card =
  Name :: string
  Type :: string

text \<open>A slice is a list (a nil slice and an empty one are both \<open>[]\<close>); \<open>*Card\<close> is an option.\<close>

record GameData =
  Score :: int
  GameCards :: "Card list"
  HasDefuseCard :: bool
  ActiveCard :: "Card option"

section \<open>encoding/json\<close>

subsection \<open>UTF-8\<close>

text \<open>
  \<open>utf8_len s\<close> is the number of bytes of the UTF-8 sequence that \<open>s\<close> starts with, by the
  table of \<open>utf8.DecodeRune\<close>, and 0 when \<open>s\<close> does not start with one (the rune is then
  \<open>RuneError\<close>, of width 1). A byte below \<open>0x80\<close> is a sequence of its own.
\<close>

definition byte_in :: "char \<Rightarrow> nat \<Rightarrow> nat \<Rightarrow> bool" where
  "byte_in c lo hi = (lo \<le> of_char c \<and> of_char c \<le> (hi :: nat))"

fun utf8_len :: "string \<Rightarrow> nat" where
  "utf8_len [] = 0"
| "utf8_len (p0 # p) =
     (if byte_in p0 0x00 0x7F then 1
      else if byte_in p0 0xC2 0xDF then
        (case p of b1 # _ \<Rightarrow> if byte_in b1 0x80 0xBF then 2 else 0 | _ \<Rightarrow> 0)
      else if byte_in p0 0xE0 0xEF then
        (case p of
           b1 # b2 # _ \<Rightarrow>
             if byte_in b1 (if p0 = CHR 0xE0 then 0xA0 else 0x80) (if p0 = CHR 0xED then 0x9F else 0xBF)
                \<and> byte_in b2 0x80 0xBF
             then 3 else 0
         | _ \<Rightarrow> 0)
      else if byte_in p0 0xF0 0xF4 then
        (case p of
           b1 # b2 # b3 # _ \<Rightarrow>
             if byte_in b1 (if p0 = CHR 0xF0 then 0x90 else 0x80) (if p0 = CHR 0xF4 then 0x8F else 0xBF)
                \<and> byte_in b2 0x80 0xBF \<and> byte_in b3 0x80 0xBF
             then 4 else 0
         | _ \<Rightarrow> 0)
      else 0)"

declare utf8_len.simps [simp del]

text \<open>\<open>utf8.EncodeRune\<close>: a surrogate or a rune beyond \<open>U+10FFFF\<close> is written as \<open>U+FFFD\<close>.\<close>

definition RuneError :: string where
  "RuneError = [CHR 0xEF, CHR 0xBF, CHR 0xBD]"

definition EncodeRune :: "nat \<Rightarrow> string" where
  "EncodeRune r =
     (if r \<le> 0x7F then [char_of r]
      else if r \<le> 0x7FF then [char_of (0xC0 + r div 64), char_of (0x80 + r mod 64)]
      else if (0xD800 \<le> r \<and> r \<le> 0xDFFF) \<or> r > 0x10FFFF then RuneError
      else if r \<le> 0xFFFF then
        [char_of (0xE0 + r div 4096), char_of (0x80 + r div 64 mod 64), char_of (0x80 + r mod 64)]
      else
        [char_of (0xF0 + r div 262144), char_of (0x80 + r div 4096 mod 64),
         char_of (0x80 + r div 64 mod 64), char_of (0x80 + r mod 64)])"

subsection \<open>Syntax trees and tokens\<close>

text \<open>A number keeps its literal: the decoders below parse it only where a target asks for it.\<close>

datatype json =
    JNull
  | JBool bool
  | JNumber string
  | JString string
  | JArray "json list"
  | JObject "(string \<times> json) list"

datatype token = TLBrack | TRBrack | TLBrace | TRBrace | TComma | TColon | TValue json

subsection \<open>Scanning a string literal\<close>

definition is_hex :: "char \<Rightarrow> bool" where
  "is_hex c = (is_digit c \<or> (CHR ''a'' \<le> c \<and> c \<le> CHR ''f'') \<or> (CHR ''A'' \<le> c \<and> c \<le> CHR ''F''))"

definition hex_val :: "char \<Rightarrow> nat" where
  "hex_val c =
     (if is_digit c then of_char c - 48
      else if CHR ''a'' \<le> c \<and> c \<le> CHR ''f'' then of_char c - 87
      else of_char c - 55)"

text \<open>
  The scanner's states inside a string: the literal runs to the first quote that no backslash
  escapes; a control byte, an unknown escape and a \<open>\u\<close> without four hexadecimal digits are
  errors. The result is the literal between the quotes, as written, and the input after it.
\<close>

definition simple_escape :: "char \<Rightarrow> bool" where
  "simple_escape e =
     (e \<in> set [CHR ''b'', CHR ''f'', CHR ''n'', CHR ''r'', CHR ''t'', CHR 0x5C, CHR ''/'', CHR 0x22])"

fun scan_string :: "string \<Rightarrow> string \<Rightarrow> (string \<times> string) option" where
  "scan_string [] acc = None"
| "scan_string (c # cs) acc =
     (if c = CHR 0x22 then Some (rev acc, cs)
      else if c = CHR 0x5C then
        (case cs of
           [] \<Rightarrow> None
         | e # cs' \<Rightarrow>
             if simple_escape e then scan_string cs' (e # c # acc)
             else if e = CHR ''u'' then
               (case cs' of
                  h1 # h2 # h3 # h4 # cs'' \<Rightarrow>
                    if is_hex h1 \<and> is_hex h2 \<and> is_hex h3 \<and> is_hex h4
                    then scan_string cs'' (h4 # h3 # h2 # h1 # e # c # acc)
                    else None
                | _ \<Rightarrow> None)
             else None)
      else if byte_in c 0x00 0x1F then None
      else scan_string cs (c # acc))"

text \<open>\<open>getu4\<close>: the code unit of a \<open>\uXXXX\<close> that the input starts with.\<close>

fun getu4 :: "string \<Rightarrow> nat option" where
  "getu4 (b # u # h1 # h2 # h3 # h4 # s) =
     (if b = CHR 0x5C \<and> u = CHR ''u'' \<and> is_hex h1 \<and> is_hex h2 \<and> is_hex h3 \<and> is_hex h4
      then Some (((hex_val h1 * 16 + hex_val h2) * 16 + hex_val h3) * 16 + hex_val h4)
      else None)"
| "getu4 s = None"

definition escape_byte :: "char \<Rightarrow> char" where
  "escape_byte e =
     (if e = CHR ''b'' then CHR 0x08 else if e = CHR ''f'' then CHR 0x0C
      else if e = CHR ''n'' then CHR 0x0A else if e = CHR ''r'' then CHR 0x0D
      else if e = CHR ''t'' then CHR 0x09 else e)"

text \<open>
  \<open>unquote\<close> turns a scanned literal into the string it denotes: escapes are replaced, a
  surrogate pair of \<open>\u\<close> escapes becomes one rune, a lone surrogate and every byte that is
  not part of a UTF-8 sequence become \<open>U+FFFD\<close>.
\<close>

function unquote :: "string \<Rightarrow> string" where
  "unquote [] = []"
| "unquote (c # s) =
     (if c = CHR 0x5C then
        (case s of
           [] \<Rightarrow> []
         | e # s' \<Rightarrow>
             if e = CHR ''u'' then
               (case getu4 (c # s) of
                  None \<Rightarrow> []
                | Some rr \<Rightarrow>
                    if 0xD800 \<le> rr \<and> rr < 0xE000 then
                      (case getu4 (drop 5 s) of
                         Some rr1 \<Rightarrow>
                           if rr < 0xDC00 \<and> 0xDC00 \<le> rr1 \<and> rr1 < 0xE000
                           then EncodeRune ((rr - 0xD800) * 1024 + (rr1 - 0xDC00) + 0x10000)
                                  @ unquote (drop 11 s)
                           else RuneError @ unquote (drop 5 s)
                       | None \<Rightarrow> RuneError @ unquote (drop 5 s))
                    else EncodeRune rr @ unquote (drop 5 s))
             else escape_byte e # unquote s')
      else if byte_in c 0x00 0x7F then c # unquote s
      else if utf8_len (c # s) = 0 then RuneError @ unquote s
      else take (utf8_len (c # s)) (c # s) @ unquote (drop (utf8_len (c # s)) (c # s)))"
  by pat_completeness auto
termination
  by (relation "measure length") (auto split: if_splits)

subsection \<open>Scanning a number\<close>

text \<open>
  The scanner's number states: an optional minus, \<open>0\<close> or a run of digits that does not start
  with \<open>0\<close>, an optional fraction and an optional exponent, each as long as the input allows.
\<close>

definition scan_digits :: "string \<Rightarrow> (string \<times> string) option" where
  "scan_digits s = (if takeWhile is_digit s = [] then None else Some (takeWhile is_digit s, dropWhile is_digit s))"

definition scan_int :: "string \<Rightarrow> (string \<times> string) option" where
  "scan_int s =
     (case s of
        [] \<Rightarrow> None
      | c # s' \<Rightarrow> if c = CHR ''0'' then Some ([c], s') else if is_digit c then scan_digits s else None)"

definition scan_frac :: "string \<Rightarrow> (string \<times> string) option" where
  "scan_frac s =
     (case s of
        c # s' \<Rightarrow>
          if c = CHR ''.'' then map_option (\<lambda>(ds, r). (c # ds, r)) (scan_digits s') else Some ([], s)
      | [] \<Rightarrow> Some ([], s))"

definition scan_exp :: "string \<Rightarrow> (string \<times> string) option" where
  "scan_exp s =
     (case s of
        c # s' \<Rightarrow>
          if c = CHR ''e'' \<or> c = CHR ''E'' then
            (case s' of
               g # s'' \<Rightarrow>
                 if g = CHR ''+'' \<or> g = CHR ''-''
                 then map_option (\<lambda>(ds, r). (c # g # ds, r)) (scan_digits s'')
                 else map_option (\<lambda>(ds, r). (c # ds, r)) (scan_digits s')
             | [] \<Rightarrow> None)
          else Some ([], s)
      | [] \<Rightarrow> Some ([], s))"

definition scan_number :: "string \<Rightarrow> (string \<times> string) option" where
  "scan_number s =
     (let (sign, s0) = (case s of c # s' \<Rightarrow> if c = CHR ''-'' then ([c], s') else ([], s) | [] \<Rightarrow> ([], s))
      in case scan_int s0 of
           None \<Rightarrow> None
         | Some (i, s1) \<Rightarrow>
             (case scan_frac s1 of
                None \<Rightarrow> None
              | Some (f, s2) \<Rightarrow>
                  (case scan_exp s2 of
                     None \<Rightarrow> None
                   | Some (e, s3) \<Rightarrow> Some (sign @ i @ f @ e, s3))))"

lemma scan_string_length: "scan_string s acc = Some (raw, rest) \<Longrightarrow> length rest < length s"
proof (induction s acc rule: scan_string.induct)
  case (1 acc)
  then show ?case by simp
next
  case (2 c cs acc)
  show ?case
  proof (cases "c = CHR 0x22")
    case True
    with "2.prems" show ?thesis by simp
  next
    case quote: False
    show ?thesis
    proof (cases "c = CHR 0x5C")
      case False
      with quote "2.prems" "2.IH"(3) show ?thesis
        by (auto split: if_splits)
    next
      case True
      with quote "2.prems" obtain e cs' where cs: "cs = e # cs'"
        by (cases cs) simp_all
      show ?thesis
      proof (cases "simple_escape e")
        case True
        with quote \<open>c = CHR 0x5C\<close> cs "2.prems" "2.IH"(1) show ?thesis
          by fastforce
      next
        case False
        with quote \<open>c = CHR 0x5C\<close> cs "2.prems"
        obtain h1 h2 h3 h4 cs'' where u: "e = CHR ''u''" "cs' = h1 # h2 # h3 # h4 # cs''"
          "is_hex h1 \<and> is_hex h2 \<and> is_hex h3 \<and> is_hex h4"
          "scan_string cs'' (h4 # h3 # h2 # h1 # e # c # acc) = Some (raw, rest)"
          by (auto split: if_splits list.splits)
        with quote \<open>c = CHR 0x5C\<close> cs False "2.IH"(2)
        have "length rest < length cs''"
          by blast
        with cs u(2) show ?thesis
          by simp
      qed
    qed
  qed
qed

lemma scan_digits_length: "scan_digits s = Some (ds, rest) \<Longrightarrow> length rest \<le> length s"
  by (auto simp: scan_digits_def length_dropWhile_le split: if_splits)

lemma scan_int_length: "scan_int s = Some (ds, rest) \<Longrightarrow> length rest < length s"
proof (cases s)
  case Nil
  assume "scan_int s = Some (ds, rest)"
  with Nil show ?thesis by (simp add: scan_int_def)
next
  case (Cons c s')
  assume a: "scan_int s = Some (ds, rest)"
  show ?thesis
  proof (cases "c = CHR ''0''")
    case True
    with a Cons show ?thesis by (simp add: scan_int_def)
  next
    case False
    with a Cons have d: "is_digit c" and "scan_digits (c # s') = Some (ds, rest)"
      by (auto simp: scan_int_def split: if_splits)
    then have "rest = dropWhile is_digit s'"
      by (auto simp: scan_digits_def split: if_splits)
    with Cons show ?thesis
      using length_dropWhile_le [of is_digit s'] by simp
  qed
qed

lemma scan_frac_length: "scan_frac s = Some (ds, rest) \<Longrightarrow> length rest \<le> length s"
  by (auto simp: scan_frac_def split: list.splits if_splits dest!: scan_digits_length)

lemma scan_exp_length: "scan_exp s = Some (ds, rest) \<Longrightarrow> length rest \<le> length s"
  by (auto simp: scan_exp_def split: list.splits if_splits dest!: scan_digits_length)

lemma scan_number_length: "scan_number s = Some (lit, rest) \<Longrightarrow> length rest < length s"
proof -
  assume a: "scan_number s = Some (lit, rest)"
  define s0 where "s0 = (case s of c # s' \<Rightarrow> if c = CHR ''-'' then s' else s | [] \<Rightarrow> s)"
  have s0: "length s0 \<le> length s"
    by (auto simp: s0_def split: list.splits)
  from a obtain i s1 f s2 e where
    "scan_int s0 = Some (i, s1)" "scan_frac s1 = Some (f, s2)" "scan_exp s2 = Some (e, rest)"
    by (auto simp: scan_number_def s0_def split: list.splits if_splits option.splits)
  then have "length s1 < length s0" "length s2 \<le> length s1" "length rest \<le> length s2"
    by (auto dest: scan_int_length scan_frac_length scan_exp_length)
  with s0 show ?thesis by simp
qed

subsection \<open>Tokens of the first value of an input\<close>

definition is_space :: "char \<Rightarrow> bool" where
  "is_space c = (c = CHR '' '' \<or> c = CHR 0x09 \<or> c = CHR 0x0D \<or> c = CHR 0x0A)"

definition cons_token :: "token \<Rightarrow> (token list \<times> string) option \<Rightarrow> (token list \<times> string) option" where
  "cons_token t r = map_option (\<lambda>(ts, rest). (t # ts, rest)) r"

text \<open>
  \<open>lex d s\<close> reads the tokens of \<open>s\<close> up to the end of the first value, \<open>d\<close> being the number
  of brackets and braces that are open, and returns them with the input that follows. A
  value nested deeper than 10000 is an error, as in the scanner.
\<close>

function lex :: "nat \<Rightarrow> string \<Rightarrow> (token list \<times> string) option" where
  "lex d [] = None"
| "lex d (c # cs) =
     (if is_space c then lex d cs
      else if c = CHR ''['' then (if d + 1 > 10000 then None else cons_token TLBrack (lex (d + 1) cs))
      else if c = CHR ''{'' then (if d + 1 > 10000 then None else cons_token TLBrace (lex (d + 1) cs))
      else if c = CHR '']'' then
        (if d = 0 then None else if d = 1 then Some ([TRBrack], cs)
         else cons_token TRBrack (lex (d - 1) cs))
      else if c = CHR ''}'' then
        (if d = 0 then None else if d = 1 then Some ([TRBrace], cs)
         else cons_token TRBrace (lex (d - 1) cs))
      else if c = CHR '','' then (if d = 0 then None else cons_token TComma (lex d cs))
      else if c = CHR '':'' then (if d = 0 then None else cons_token TColon (lex d cs))
      else if c = CHR 0x22 then
        (case scan_string cs [] of
           None \<Rightarrow> None
         | Some (raw, rest) \<Rightarrow>
             if d = 0 then Some ([TValue (JString (unquote raw))], rest)
             else cons_token (TValue (JString (unquote raw))) (lex d rest))
      else if c = CHR ''-'' \<or> is_digit c then
        (case scan_number (c # cs) of
           None \<Rightarrow> None
         | Some (lit, rest) \<Rightarrow>
             if d = 0 then Some ([TValue (JNumber lit)], rest)
             else cons_token (TValue (JNumber lit)) (lex d rest))
      else if take 4 (c # cs) = ''true'' then
        (if d = 0 then Some ([TValue (JBool True)], drop 3 cs)
         else cons_token (TValue (JBool True)) (lex d (drop 3 cs)))
      else if take 5 (c # cs) = ''false'' then
        (if d = 0 then Some ([TValue (JBool False)], drop 4 cs)
         else cons_token (TValue (JBool False)) (lex d (drop 4 cs)))
      else if take 4 (c # cs) = ''null'' then
        (if d = 0 then Some ([TValue JNull], drop 3 cs)
         else cons_token (TValue JNull) (lex d (drop 3 cs)))
      else None)"
  by pat_completeness auto
termination
proof (relation "measure (\<lambda>(d, s). length s)", goal_cases)
  case 1
  show ?case by simp
next
  case (9 d c cs x2 x y)
  then show ?case
    using scan_string_length [of cs "[]" x y] by simp
next
  case (10 d c cs x2 x y)
  then show ?case
    using scan_number_length [of "c # cs" x y] by simp
qed simp_all

subsection \<open>The value of a token sequence\<close>

text \<open>
  The scanner keeps a stack of the arrays and objects that are open. Here the stack holds
  what has been read of each: the elements of an array, the fields of an object, and the key
  of the field whose value is being read.
\<close>

datatype frame =
    InArray "json list"
  | InObject "(string \<times> json) list"
  | InField "(string \<times> json) list" string

datatype pstate =
    BeginValue
  | BeginValueOrEmpty
  | BeginStringOrEmpty
  | BeginString
  | ExpectColon
  | EndValue
  | Finished json

fun add_value :: "json \<Rightarrow> frame list \<Rightarrow> (pstate \<times> frame list) option" where
  "add_value v [] = Some (Finished v, [])"
| "add_value v (InArray vs # st) = Some (EndValue, InArray (v # vs) # st)"
| "add_value v (InField kvs k # st) = Some (EndValue, InObject ((k, v) # kvs) # st)"
| "add_value v (InObject kvs # st) = None"

fun begin_value :: "token \<Rightarrow> frame list \<Rightarrow> (pstate \<times> frame list) option" where
  "begin_value (TValue v) st = add_value v st"
| "begin_value TLBrack st = Some (BeginValueOrEmpty, InArray [] # st)"
| "begin_value TLBrace st = Some (BeginStringOrEmpty, InObject [] # st)"
| "begin_value t st = None"

fun begin_string :: "token \<Rightarrow> frame list \<Rightarrow> (pstate \<times> frame list) option" where
  "begin_string (TValue (JString k)) (InObject kvs # st) = Some (ExpectColon, InField kvs k # st)"
| "begin_string t st = None"

fun step :: "token \<Rightarrow> pstate \<times> frame list \<Rightarrow> (pstate \<times> frame list) option" where
  "step t (BeginValue, st) = begin_value t st"
| "step t (BeginValueOrEmpty, st) =
     (case (t, st) of
        (TRBrack, InArray vs # st') \<Rightarrow> add_value (JArray (rev vs)) st'
      | _ \<Rightarrow> begin_value t st)"
| "step t (BeginStringOrEmpty, st) =
     (case (t, st) of
        (TRBrace, InObject kvs # st') \<Rightarrow> add_value (JObject (rev kvs)) st'
      | _ \<Rightarrow> begin_string t st)"
| "step t (BeginString, st) = begin_string t st"
| "step t (ExpectColon, st) = (if t = TColon then Some (BeginValue, st) else None)"
| "step t (EndValue, st) =
     (case (t, st) of
        (TComma, InArray vs # st') \<Rightarrow> Some (BeginValue, st)
      | (TRBrack, InArray vs # st') \<Rightarrow> add_value (JArray (rev vs)) st'
      | (TComma, InObject kvs # st') \<Rightarrow> Some (BeginString, st)
      | (TRBrace, InObject kvs # st') \<Rightarrow> add_value (JObject (rev kvs)) st'
      | _ \<Rightarrow> None)"
| "step t (Finished v, st) = None"

fun run :: "token list \<Rightarrow> pstate \<times> frame list \<Rightarrow> (pstate \<times> frame list) option" where
  "run [] s = Some s"
| "run (t # ts) s = (case step t s of None \<Rightarrow> None | Some s' \<Rightarrow> run ts s')"

definition parse_tokens :: "token list \<Rightarrow> json option" where
  "parse_tokens ts =
     (case run ts (BeginValue, []) of
        Some (Finished v, []) \<Rightarrow> Some v
      | _ \<Rightarrow> None)"

text \<open>
  \<open>first_value s\<close> is the first JSON value of \<open>s\<close> and the input after it: what one call of
  \<open>Decoder.Decode\<close> reads of a request body. \<open>json.Unmarshal\<close> takes the whole input, so only
  white space may follow the value.
\<close>

definition first_value :: "string \<Rightarrow> (json \<times> string) option" where
  "first_value s =
     (case lex 0 s of
        None \<Rightarrow> None
      | Some (ts, rest) \<Rightarrow> map_option (\<lambda>v. (v, rest)) (parse_tokens ts))"

definition whole_value :: "string \<Rightarrow> json option" where
  "whole_value s =
     (case first_value s of
        Some (v, rest) \<Rightarrow> if list_all is_space rest then Some v else None
      | None \<Rightarrow> None)"

subsection \<open>Decoding into \<open>interface{}\<close>\<close>

text \<open>
  The values that decoding into \<open>interface{}\<close> produces. A \<open>map[string]interface{}\<close> is the list
  of its entries in the order of their keys, which is the order \<open>json.Marshal\<close> writes them in;
  a key that the input repeats keeps its last value.

  A number becomes a \<open>float64\<close>, which the program only ever marshals again. Parsing and
  formatting floating-point numbers is not modelled: the model takes as a parameter the function
  \<open>fmt\<close> that maps a number literal to the text \<open>json.Marshal\<close> writes for its \<open>float64\<close>, and
  to \<open>None\<close> when the literal is out of range, which is a decoding error. An \<open>AFloat64\<close> holds
  that text.
\<close>

datatype any =
    ANil
  | ABool bool
  | AFloat64 string
  | AString string
  | ASlice "any list"
  | AMap "(string \<times> any) list"

fun map_insert :: "string \<Rightarrow> 'v \<Rightarrow> (string \<times> 'v) list \<Rightarrow> (string \<times> 'v) list" where
  "map_insert k v [] = [(k, v)]"
| "map_insert k v ((k', v') # m) =
     (if k = k' then (k, v) # m
      else if k < k' then (k, v) # (k', v') # m
      else (k', v') # map_insert k v m)"

definition go_map :: "(string \<times> 'v) list \<Rightarrow> (string \<times> 'v) list" where
  "go_map kvs = fold (\<lambda>(k, v) m. map_insert k v m) kvs []"

fun decode_any :: "(string \<Rightarrow> string option) \<Rightarrow> json \<Rightarrow> any" where
  "decode_any fmt JNull = ANil"
| "decode_any fmt (JBool b) = ABool b"
| "decode_any fmt (JNumber lit) = (case fmt lit of None \<Rightarrow> ANil | Some text \<Rightarrow> AFloat64 text)"
| "decode_any fmt (JString s) = AString s"
| "decode_any fmt (JArray vs) = ASlice (map (decode_any fmt) vs)"
| "decode_any fmt (JObject kvs) = AMap (go_map (map (\<lambda>(k, v). (k, decode_any fmt v)) kvs))"

fun numbers_ok :: "(string \<Rightarrow> string option) \<Rightarrow> json \<Rightarrow> bool" where
  "numbers_ok fmt (JNumber lit) = (fmt lit \<noteq> None)"
| "numbers_ok fmt (JArray vs) = list_all (numbers_ok fmt) vs"
| "numbers_ok fmt (JObject kvs) = list_all (\<lambda>(k, v). numbers_ok fmt v) kvs"
| "numbers_ok fmt v = True"

text \<open>
  \<open>json.NewDecoder(r.Body).Decode(&requestBody)\<close> with \<open>requestBody\<close> a nil
  \<open>map[string]interface{}\<close>: the first value of the body must be an object, or \<open>null\<close>, which
  leaves the map nil. \<open>None\<close> is the error that the call returns.
\<close>

definition Decode_map_any :: "(string \<Rightarrow> string option) \<Rightarrow> string \<Rightarrow> (string \<times> any) list option" where
  "Decode_map_any fmt body =
     (case first_value body of
        None \<Rightarrow> None
      | Some (JNull, rest) \<Rightarrow> Some []
      | Some (JObject kvs, rest) \<Rightarrow>
          if numbers_ok fmt (JObject kvs)
          then Some (go_map (map (\<lambda>(k, v). (k, decode_any fmt v)) kvs))
          else None
      | Some (v, rest) \<Rightarrow> None)"

text \<open>
  The same call with \<open>requestBody\<close> a nil \<open>map[string]string\<close>: every value of the object must
  be a string, or \<open>null\<close>, which stores the empty string.
\<close>

fun string_field :: "json \<Rightarrow> string option" where
  "string_field (JString s) = Some s"
| "string_field JNull = Some []"
| "string_field v = None"

fun string_fields :: "(string \<times> json) list \<Rightarrow> (string \<rightharpoonup> string) \<Rightarrow> (string \<rightharpoonup> string) option" where
  "string_fields [] m = Some m"
| "string_fields ((k, v) # kvs) m =
     (case string_field v of None \<Rightarrow> None | Some s \<Rightarrow> string_fields kvs (m(k \<mapsto> s)))"

definition Decode_map_string :: "string \<Rightarrow> (string \<rightharpoonup> string) option" where
  "Decode_map_string body =
     (case first_value body of
        None \<Rightarrow> None
      | Some (JNull, rest) \<Rightarrow> Some Map.empty
      | Some (JObject kvs, rest) \<Rightarrow> string_fields kvs Map.empty
      | Some (v, rest) \<Rightarrow> None)"

subsection \<open>Decoding into \<open>[]Card\<close>\<close>

text \<open>
  A key of an object names the field \<open>Name\<close> or \<open>Type\<close> when it is the field's JSON name up to
  the case of its letters; other keys are skipped. A string sets the field, \<open>null\<close> leaves it,
  and any other value leaves it and is a type error. An element that is not an object is a type
  error (\<open>null\<close> is not) and stays the zero \<open>Card\<close>. After a type error the decoder goes on; the
  flag returned beside the value says that \<open>Unmarshal\<close> returns an error.
\<close>

definition to_lower :: "char \<Rightarrow> char" where
  "to_lower c = (if CHR ''A'' \<le> c \<and> c \<le> CHR ''Z'' then char_of (of_char c + (32 :: nat)) else c)"

definition zero_Card :: Card where
  "zero_Card = \<lparr>Name = [], Type = []\<rparr>"

fun set_field :: "string \<times> json \<Rightarrow> Card \<times> bool \<Rightarrow> Card \<times> bool" where
  "set_field (k, v) (crd, err) =
     (if map to_lower k = ''name'' then
        (case v of JString s \<Rightarrow> (crd\<lparr>Name := s\<rparr>, err) | JNull \<Rightarrow> (crd, err) | _ \<Rightarrow> (crd, True))
      else if map to_lower k = ''type'' then
        (case v of JString s \<Rightarrow> (crd\<lparr>Type := s\<rparr>, err) | JNull \<Rightarrow> (crd, err) | _ \<Rightarrow> (crd, True))
      else (crd, err))"

fun decode_Card :: "json \<Rightarrow> Card \<times> bool" where
  "decode_Card (JObject kvs) = fold set_field kvs (zero_Card, False)"
| "decode_Card JNull = (zero_Card, False)"
| "decode_Card v = (zero_Card, True)"

fun decode_Cards :: "json \<Rightarrow> Card list \<times> bool" where
  "decode_Cards (JArray vs) = (map (fst \<circ> decode_Card) vs, list_ex (snd \<circ> decode_Card) vs)"
| "decode_Cards JNull = ([], False)"
| "decode_Cards v = ([], True)"

text \<open>
  \<open>json.Unmarshal([]byte(text), &gameData.GameCards)\<close> on the nil slice of a fresh \<open>GameData\<close>:
  an input that is not one JSON value is an error that leaves the slice as it is.
\<close>

definition Unmarshal_Cards :: "string \<Rightarrow> Card list \<times> bool" where
  "Unmarshal_Cards text = (case whole_value text of None \<Rightarrow> ([], True) | Some v \<Rightarrow> decode_Cards v)"

subsection \<open>Marshalling\<close>

definition hex_digit :: "nat \<Rightarrow> char" where
  "hex_digit n = ''0123456789abcdef'' ! n"

text \<open>
  \<open>json.Marshal\<close> writes a byte below \<open>0x80\<close> as it is unless it is a control byte, a quote, a
  backslash or one of \<open><\<close>, \<open>>\<close>, \<open>&\<close>. A control byte other than the line feed, the
  carriage return and the tab is written as \<open>\u00XX\<close>; later releases of the library write
  the bytes \<open>0x08\<close> and \<open>0x0C\<close> as \<open>\b\<close> and \<open>\f\<close>, which \<open>unquote\<close> reads as the same
  bytes.
\<close>

definition html_safe :: "char \<Rightarrow> bool" where
  "html_safe c =
     (byte_in c 0x20 0x7F \<and> c \<notin> set [CHR 0x22, CHR 0x5C, CHR ''<'', CHR ''>'', CHR ''&''])"

definition escaped :: "char \<Rightarrow> string" where
  "escaped c =
     (if c = CHR 0x22 \<or> c = CHR 0x5C then [CHR 0x5C, c]
      else if c = CHR 0x0A then [CHR 0x5C, CHR ''n'']
      else if c = CHR 0x0D then [CHR 0x5C, CHR ''r'']
      else if c = CHR 0x09 then [CHR 0x5C, CHR ''t'']
      else [CHR 0x5C, CHR ''u'', CHR ''0'', CHR ''0'',
            hex_digit (of_char c div 16), hex_digit (of_char c mod 16)])"

function escape :: "string \<Rightarrow> string" where
  "escape [] = []"
| "escape (c # s) =
     (if byte_in c 0x00 0x7F then (if html_safe c then [c] else escaped c) @ escape s
      else if utf8_len (c # s) = 0 then CHR 0x5C # ''ufffd'' @ escape s
      else if take 3 (c # s) = [CHR 0xE2, CHR 0x80, CHR 0xA8] then CHR 0x5C # ''u2028'' @ escape (drop 2 s)
      else if take 3 (c # s) = [CHR 0xE2, CHR 0x80, CHR 0xA9] then CHR 0x5C # ''u2029'' @ escape (drop 2 s)
      else take (utf8_len (c # s)) (c # s) @ escape (drop (utf8_len (c # s)) (c # s)))"
  by pat_completeness auto
termination
  by (relation "measure length") (auto split: if_splits)

definition marshal_string :: "string \<Rightarrow> string" where
  "marshal_string s = CHR 0x22 # escape s @ [CHR 0x22]"

fun join :: "string list \<Rightarrow> string" where
  "join [] = []"
| "join [x] = x"
| "join (x # y # xs) = x @ '','' @ join (y # xs)"

text \<open>\<open>json.Marshal\<close> of a non-nil \<open>[]string\<close>.\<close>

definition marshal_strings :: "string list \<Rightarrow> string" where
  "marshal_strings xs = ''['' @ join (map marshal_string xs) @ '']''"

text \<open>\<open>json.Marshal\<close> of a value that was decoded into \<open>interface{}\<close>.\<close>

fun marshal_any :: "any \<Rightarrow> string" where
  "marshal_any ANil = ''null''"
| "marshal_any (ABool b) = (if b then ''true'' else ''false'')"
| "marshal_any (AFloat64 text) = text"
| "marshal_any (AString s) = marshal_string s"
| "marshal_any (ASlice xs) = ''['' @ join (map marshal_any xs) @ '']''"
| "marshal_any (AMap kvs) =
     ''{'' @ join (map (\<lambda>(k, v). marshal_string k @ '':'' @ marshal_any v) kvs) @ ''}''"

text \<open>\<open>json.Marshal\<close> of a non-nil \<open>[]LeaderboardEntry\<close>; it cannot fail.\<close>

definition marshal_entry :: "LeaderboardEntry \<Rightarrow> string" where
  "marshal_entry e =
     ''{'' @ marshal_string ''userName'' @ '':'' @ marshal_string (UserName e) @ '','' @
     marshal_string ''userScore'' @ '':'' @ FormatInt (UserScore e) @ ''}''"

definition marshal_leaderboard :: "LeaderboardEntry list \<Rightarrow> string" where
  "marshal_leaderboard lb = ''['' @ join (map marshal_entry lb) @ '']''"

section \<open>The store\<close>

text \<open>
  The store is one Redis database: a single key space whose keys hold typed values. The
  program creates hashes (one per player, under the player's name) and one sorted set (under
  the key \<open>leaderboard\<close>); a command sent to a key that holds the other type is answered with
  the error \<open>WRONGTYPE\<close>. The connection is taken to be up, so this is the only error of a
  command. A sorted set is the list of its members with their scores.
\<close>

datatype redis_error = WRONGTYPE

datatype rvalue = Hash "string \<rightharpoonup> string" | ZSet "(string \<times> int) list"

type_synonym store = "string \<rightharpoonup> rvalue"

definition Exists :: "store \<Rightarrow> string \<Rightarrow> int" where
  "Exists db key = (if db key = None then 0 else 1)"

definition set_fields :: "(string \<times> string) list \<Rightarrow> (string \<rightharpoonup> string) \<Rightarrow> (string \<rightharpoonup> string)" where
  "set_fields fvs h = fold (\<lambda>(f, v) h. h(f \<mapsto> v)) fvs h"

definition HMSet :: "store \<Rightarrow> string \<Rightarrow> (string \<times> string) list \<Rightarrow> redis_error + store" where
  "HMSet db key fvs =
     (case db key of
        None \<Rightarrow> Inr (db(key \<mapsto> Hash (set_fields fvs Map.empty)))
      | Some (Hash h) \<Rightarrow> Inr (db(key \<mapsto> Hash (set_fields fvs h)))
      | Some (ZSet z) \<Rightarrow> Inl WRONGTYPE)"

definition HGetAll :: "store \<Rightarrow> string \<Rightarrow> redis_error + (string \<rightharpoonup> string)" where
  "HGetAll db key =
     (case db key of
        None \<Rightarrow> Inr Map.empty
      | Some (Hash h) \<Rightarrow> Inr h
      | Some (ZSet z) \<Rightarrow> Inl WRONGTYPE)"

definition ZAdd :: "store \<Rightarrow> string \<Rightarrow> int \<Rightarrow> string \<Rightarrow> redis_error + store" where
  "ZAdd db key score member =
     (case db key of
        None \<Rightarrow> Inr (db(key \<mapsto> ZSet [(member, score)]))
      | Some (ZSet z) \<Rightarrow> Inr (db(key \<mapsto> ZSet (AList.update member score z)))
      | Some (Hash h) \<Rightarrow> Inl WRONGTYPE)"

text \<open>The store deletes a key whose sorted set has lost its last member.\<close>

definition ZRem :: "store \<Rightarrow> string \<Rightarrow> string \<Rightarrow> redis_error + store" where
  "ZRem db key member =
     (case db key of
        None \<Rightarrow> Inr db
      | Some (ZSet z) \<Rightarrow>
          (let z' = AList.delete member z
           in Inr (if z' = [] then db(key := None) else db(key \<mapsto> ZSet z')))
      | Some (Hash h) \<Rightarrow> Inl WRONGTYPE)"

text \<open>
  \<open>ZREVRANGE key 0 -1 WITHSCORES\<close>: every member, from the highest score to the lowest;
  members of equal score in descending order of their bytes.
\<close>

definition ZRevRangeWithScores :: "store \<Rightarrow> string \<Rightarrow> redis_error + (string \<times> int) list" where
  "ZRevRangeWithScores db key =
     (case db key of
        None \<Rightarrow> Inr []
      | Some (ZSet z) \<Rightarrow> Inr (rev (sort_key (\<lambda>(member, score). (score, member)) z))
      | Some (Hash h) \<Rightarrow> Inl WRONGTYPE)"

text \<open>A command whose result the handler does not look at: on an error the store is as before.\<close>

definition ignore_error :: "store \<Rightarrow> redis_error + store \<Rightarrow> store" where
  "ignore_error db r = (case r of Inl e \<Rightarrow> db | Inr db' \<Rightarrow> db')"

section \<open>The leaderboard snapshot\<close>

text \<open>The loop of \<open>getLatestLeaderboard\<close> appends one entry per element of the reply.\<close>

fun format_loop :: "(string \<times> int) list \<Rightarrow> LeaderboardEntry list \<Rightarrow> LeaderboardEntry list" where
  "format_loop [] formattedLeaderboard = formattedLeaderboard"
| "format_loop ((member, score) # leaderboard) formattedLeaderboard =
     format_loop leaderboard
       (formattedLeaderboard @ [\<lparr>UserName = member, UserScore = int_of_float64 score\<rparr>])"

definition getLatestLeaderboard :: "store \<Rightarrow> redis_error + LeaderboardEntry list" where
  "getLatestLeaderboard db =
     (case ZRevRangeWithScores db ''leaderboard'' of
        Inl err \<Rightarrow> Inl err
      | Inr leaderboard \<Rightarrow> Inr (format_loop leaderboard []))"

subsection \<open>Writes to the leaderboard\<close>

text \<open>
  The handlers write to the sorted set in two places, and look at the result of neither:
  \<open>updateGameData\<close> sets a member's score to \<open>float64(score)\<close> (the initialisation in
  \<open>gameHandler\<close> does the same with score 0), and \<open>resetGame\<close> removes a member.
\<close>

datatype leaderboard_op = Upsert string int | Remove string

fun apply_op :: "leaderboard_op \<Rightarrow> store \<Rightarrow> store" where
  "apply_op (Upsert userName score) db =
     ignore_error db (ZAdd db ''leaderboard'' (float64_of_int score) userName)"
| "apply_op (Remove userName) db = ignore_error db (ZRem db ''leaderboard'' userName)"

text \<open>
  What a sequence of writes commits, as a map from members to scores: the last write to a
  member wins.
\<close>

fun commit :: "leaderboard_op \<Rightarrow> (string \<rightharpoonup> int) \<Rightarrow> (string \<rightharpoonup> int)" where
  "commit (Upsert userName score) m = m(userName \<mapsto> float64_of_int score)"
| "commit (Remove userName) m = m(userName := None)"

definition members :: "store \<Rightarrow> (string \<rightharpoonup> int)" where
  "members db = (case db ''leaderboard'' of Some (ZSet z) \<Rightarrow> map_of z | _ \<Rightarrow> Map.empty)"

text \<open>
  The key \<open>leaderboard\<close> is free or holds a sorted set, which lists a member once.
\<close>

definition leaderboard_ok :: "store \<Rightarrow> bool" where
  "leaderboard_ok db =
     (case db ''leaderboard'' of
        None \<Rightarrow> True
      | Some (ZSet z) \<Rightarrow> distinct (map fst z)
      | Some (Hash h) \<Rightarrow> False)"

text \<open>A score that an \<open>int\<close> holds, so that \<open>int(z.Score)\<close> is the score.\<close>

definition int_range :: "int \<Rightarrow> bool" where
  "int_range f = (- (2 ^ 63) \<le> f \<and> f < 2 ^ 63)"

definition entry_of :: "string \<times> int \<Rightarrow> LeaderboardEntry" where
  "entry_of = (\<lambda>(member, score). \<lparr>UserName = member, UserScore = int_of_float64 score\<rparr>)"

definition ranked :: "(string \<times> int) list \<Rightarrow> (string \<times> int) list" where
  "ranked z = rev (sort_key (\<lambda>(member, score). (score, member)) z)"

section \<open>Package main: the HTTP handlers\<close>

text \<open>
  What a handler answers: \<open>http.Error(w, message, code)\<close>, one of the three bodies written
  with status 200, or nothing because it panicked. A handler returns the store it leaves and
  its answer.
\<close>

datatype response =
    HttpError string nat
  | GameResponse GameData "LeaderboardEntry list"
  | UpdateResponse string string bool string int "any list"
  | ResetResponse string
  | Panicked panic

text \<open>The store client writes a \<open>bool\<close> argument as \<open>1\<close> or \<open>0\<close>, and \<open>nil\<close> as the empty string.\<close>

definition redis_bool :: "bool \<Rightarrow> string" where
  "redis_bool b = (if b then ''1'' else ''0'')"

text \<open>\<open>m[key]\<close> on a \<open>map[string]string\<close>: the empty string for a missing key.\<close>

definition field :: "(string \<rightharpoonup> string) \<Rightarrow> string \<Rightarrow> string" where
  "field m key = (case m key of None \<Rightarrow> [] | Some v \<Rightarrow> v)"

subsection \<open>GET /game\<close>

text \<open>
  The branch of \<open>gameHandler\<close> that initialises the game data of a new user. \<open>Inl\<close> is the
  answer of the early return. \<open>json.Marshal\<close> of a \<open>[]string\<close> returns no error, so the branch
  of the source for that error is never taken. The result of \<open>ZAdd\<close> is not looked at.
\<close>

definition initialize :: "(nat \<Rightarrow> nat) \<Rightarrow> string \<Rightarrow> store \<Rightarrow> store \<times> response + store" where
  "initialize draws userName db =
     (if Exists db userName = 0 \<and> userName \<noteq> [] then
        (case GenerateRandomCards draws of
           Inl p \<Rightarrow> Inl (db, Panicked p)
         | Inr randomCards \<Rightarrow>
             (case HMSet db userName
                     [(''score'', FormatInt 0),
                      (''gameCards'', marshal_strings randomCards),
                      (''hasDefuseCard'', redis_bool False),
                      (''activeCard'', [])] of
                Inl err \<Rightarrow> Inl (db, HttpError ''Failed to initiate game for new user'' 500)
              | Inr db' \<Rightarrow> Inr (ignore_error db' (ZAdd db' ''leaderboard'' 0 userName))))
      else Inr db)"

text \<open>
  The decoding of the fields that \<open>HGetAll\<close> returned into a fresh \<open>GameData\<close>; every error
  is dropped.
\<close>

definition decode_fields :: "(string \<rightharpoonup> string) \<Rightarrow> GameData" where
  "decode_fields gameDataMap =
     \<lparr>Score = fst (Atoi (field gameDataMap ''score'')),
      GameCards = fst (Unmarshal_Cards (field gameDataMap ''gameCards'')),
      HasDefuseCard = fst (ParseBool (field gameDataMap ''hasDefuseCard'')),
      ActiveCard =
        (case gameDataMap ''activeCard'' of
           Some activeCardValue \<Rightarrow>
             if activeCardValue \<noteq> [] then Some \<lparr>Name = activeCardValue, Type = []\<rparr> else None
         | None \<Rightarrow> None)\<rparr>"

definition gameHandler :: "(nat \<Rightarrow> nat) \<Rightarrow> string \<Rightarrow> store \<Rightarrow> store \<times> response" where
  "gameHandler draws userName db =
     (case initialize draws userName db of
        Inl answered \<Rightarrow> answered
      | Inr db' \<Rightarrow>
          (case HGetAll db' userName of
             Inl err \<Rightarrow> (db', HttpError ''Failed to retrieve user data'' 500)
           | Inr gameDataMap \<Rightarrow>
               (case getLatestLeaderboard db' of
                  Inl err \<Rightarrow> (db', HttpError ''Failed to retrieve latest leaderboard'' 500)
                | Inr leaderboard \<Rightarrow> (db', GameResponse (decode_fields gameDataMap) leaderboard))))"

subsection \<open>PUT /game\<close>

text \<open>
  A type assertion \<open>x.(T)\<close> with one result panics when \<open>x\<close> does not hold a \<open>T\<close>; with two
  results it yields the zero value instead.
\<close>

fun assert_string :: "any option \<Rightarrow> panic + string" where
  "assert_string (Some (AString s)) = Inr s"
| "assert_string x = Inl InterfaceConversion"

fun assert_slice :: "any option \<Rightarrow> panic + any list" where
  "assert_slice (Some (ASlice xs)) = Inr xs"
| "assert_slice x = Inl InterfaceConversion"

fun string_or_zero :: "any option \<Rightarrow> string" where
  "string_or_zero (Some (AString s)) = s"
| "string_or_zero x = []"

fun bool_or_zero :: "any option \<Rightarrow> bool" where
  "bool_or_zero (Some (ABool b)) = b"
| "bool_or_zero x = False"

definition updateGameData :: "(string \<Rightarrow> string option) \<Rightarrow> string \<Rightarrow> store \<Rightarrow> store \<times> response" where
  "updateGameData fmt body db =
     (case Decode_map_any fmt body of
        None \<Rightarrow> (db, HttpError ''Failed to decode request body'' 400)
      | Some requestBody \<Rightarrow>
          (let userName = string_or_zero (map_of requestBody ''userName'');
               hasDefuseCard = bool_or_zero (map_of requestBody ''hasDefuseCard'');
               activeCard = string_or_zero (map_of requestBody ''activeCard'')
           in case assert_string (map_of requestBody ''score'') of
                Inl p \<Rightarrow> (db, Panicked p)
              | Inr scoreText \<Rightarrow>
                  (let score = fst (Atoi scoreText)
                   in case assert_slice (map_of requestBody ''gameCards'') of
                        Inl p \<Rightarrow> (db, Panicked p)
                      | Inr gameCards \<Rightarrow>
                          (case HMSet db userName
                                  [(''gameCards'', marshal_any (ASlice gameCards)),
                                   (''hasDefuseCard'', redis_bool hasDefuseCard),
                                   (''activeCard'', activeCard),
                                   (''score'', FormatInt score)] of
                             Inl err \<Rightarrow> (db, HttpError ''Failed to update game data'' 500)
                           | Inr db' \<Rightarrow>
                               (let db'' = ignore_error db'
                                      (ZAdd db' ''leaderboard'' (float64_of_int score) userName)
                                in case getLatestLeaderboard db'' of
                                     Inl err \<Rightarrow>
                                       (db'', HttpError ''Failed to retrieve latest leaderboard'' 500)
                                   | Inr leaderboard \<Rightarrow>
                                       (db'', UpdateResponse (marshal_leaderboard leaderboard)
                                                userName hasDefuseCard activeCard score gameCards))))))"

subsection \<open>DELETE /game\<close>

text \<open>
  After it has written its answer, \<open>resetGame\<close> sends the answer on the unbuffered channel
  \<open>broadcastLeaderboard\<close>. Nothing in the program receives from that channel, so the handler
  stays at this send; the store is then as \<open>ResetResponse\<close> is returned with.
\<close>

definition resetGame :: "string \<Rightarrow> store \<Rightarrow> store \<times> response" where
  "resetGame body db =
     (case Decode_map_string body of
        None \<Rightarrow> (db, HttpError ''Failed to decode request body'' 400)
      | Some requestBody \<Rightarrow>
          (let userName = field requestBody ''userName''
           in if userName = [] then (db, HttpError ''Missing userName in request body'' 400)
              else
                (case HMSet db userName
                        [(''gameCards'', ''[]''),
                         (''hasDefuseCard'', ''false''),
                         (''activeCard'', []),
                         (''score'', FormatInt 0)] of
                   Inl err \<Rightarrow> (db, HttpError ''Failed to reset game data'' 500)
                 | Inr db' \<Rightarrow>
                     (let db'' = ignore_error db' (ZRem db' ''leaderboard'' userName)
                      in case getLatestLeaderboard db'' of
                           Inl err \<Rightarrow> (db'', HttpError ''Failed to retrieve latest leaderboard'' 500)
                         | Inr leaderboard \<Rightarrow> (db'', ResetResponse (marshal_leaderboard leaderboard))))))"

section \<open>Package main: the WebSocket handler\<close>

text \<open>
  \<open>main\<close> registers \<open>websocketHandler\<close> with \<open>http.HandleFunc\<close>, that is on the default mux,
  and starts a server whose handler is the router \<open>r\<close>, on which only \<open>/game\<close> is registered.
  What follows is about the handler function, for a connection that was upgraded.

  The loop of \<open>websocketHandler\<close> after the upgrade. What the peer, the network and the store
  do is given from outside, one event per pass of the loop: the result of
  \<open>conn.ReadMessage()\<close>, the store as \<open>getLatestLeaderboard\<close> finds it, and the error of the
  network write, if the connection makes one and it fails.

  The state holds the tally \<open>leaderboardMap\<close>, a variable of the package with an \<open>int\<close> per
  name (64 bits, so \<open>++\<close> wraps), the log, the frames written to the connection, and the field
  \<open>writeErr\<close> of the connection.
\<close>

record ws_event =
  received :: "string + int \<times> string"
  db_now :: store
  write_error :: "string option"

record ws_state =
  leaderboardMap :: "string \<Rightarrow> 64 word"
  logged :: "string list"
  written :: "(int \<times> string) list"
  writeErr :: "string option"

definition updateLeaderboard :: "string \<Rightarrow> ws_state \<Rightarrow> ws_state" where
  "updateLeaderboard userName st =
     st\<lparr>leaderboardMap := (leaderboardMap st)(userName := leaderboardMap st userName + 1)\<rparr>"

definition log_Println :: "string \<Rightarrow> ws_state \<Rightarrow> ws_state" where
  "log_Println line st = st\<lparr>logged := logged st @ [line]\<rparr>"

text \<open>\<open>json.Marshal(leaderboard)\<close>: the call returns an error that is never set for this type.\<close>

definition Marshal_leaderboard :: "LeaderboardEntry list \<Rightarrow> string + string" where
  "Marshal_leaderboard leaderboard = Inr (marshal_leaderboard leaderboard)"

text \<open>
  \<open>conn.WriteMessage(messageType, data)\<close> for a text or a binary message, the types that
  \<open>ReadMessage\<close> returns. The connection keeps the error of its first failed write in
  \<open>writeErr\<close>, and every later call returns that error without writing.
\<close>

definition WriteMessage :: "string option \<Rightarrow> int \<Rightarrow> string \<Rightarrow> ws_state \<Rightarrow> string option \<times> ws_state" where
  "WriteMessage network_error messageType data st =
     (case writeErr st of
        Some err \<Rightarrow> (Some err, st)
      | None \<Rightarrow>
          (case network_error of
             Some err \<Rightarrow> (Some err, st\<lparr>writeErr := Some err\<rparr>)
           | None \<Rightarrow> (None, st\<lparr>written := written st @ [(messageType, data)]\<rparr>)))"

definition emitLeaderboard :: "string option \<Rightarrow> LeaderboardEntry list \<Rightarrow> int \<Rightarrow> ws_state \<Rightarrow> ws_state" where
  "emitLeaderboard network_error leaderboard messageType st =
     (case Marshal_leaderboard leaderboard of
        Inl err \<Rightarrow> log_Println ''Error serializing leaderboard:'' st
      | Inr leaderboardJSON \<Rightarrow>
          (case WriteMessage network_error messageType leaderboardJSON st of
             (Some err, st') \<Rightarrow> log_Println ''Error writing leaderboard:'' st'
           | (None, st') \<Rightarrow> st'))"

text \<open>
  The loop returns the state and whether it has left the loop (the deferred \<open>conn.Close()\<close>
  then runs); when the events are used up it is still waiting in \<open>ReadMessage\<close>.
\<close>

fun websocketLoop :: "ws_event list \<Rightarrow> ws_state \<Rightarrow> ws_state \<times> bool" where
  "websocketLoop [] st = (st, False)"
| "websocketLoop (ev # evs) st =
     (case received ev of
        Inl err \<Rightarrow> (log_Println ''Error reading message:'' st, True)
      | Inr (messageType, message) \<Rightarrow>
          (let st1 = updateLeaderboard message (log_Println (''Received message: '' @ message) st)
           in case getLatestLeaderboard (db_now ev) of
                Inl err \<Rightarrow> websocketLoop evs (log_Println ''Error fetching latest leaderboard:'' st1)
              | Inr leaderboard \<Rightarrow>
                  websocketLoop evs (emitLeaderboard (write_error ev) leaderboard messageType st1)))"

text \<open>
  The state of a first connection: the empty tally made by \<open>make(map[string]int)\<close>, and a
  connection that has not failed.
\<close>

definition initial_ws_state :: ws_state where
  "initial_ws_state = \<lparr>leaderboardMap = (\<lambda>userName. 0), logged = [], written = [], writeErr = None\<rparr>"

text \<open>The messages that the loop reads before the first failed read.\<close>

fun messages_read :: "ws_event list \<Rightarrow> string list" where
  "messages_read [] = []"
| "messages_read (ev # evs) =
     (case received ev of Inl err \<Rightarrow> [] | Inr (messageType, message) \<Rightarrow> message # messages_read evs)"

section \<open>Cards in a request\<close>

text \<open>
  A Go string that was decoded from JSON is valid UTF-8; \<open>valid_utf8\<close> says so of a byte
  sequence.
\<close>

function valid_utf8 :: "string \<Rightarrow> bool" where
  "valid_utf8 [] = True"
| "valid_utf8 (c # s) =
     (if utf8_len (c # s) = 0 then False else valid_utf8 (drop (utf8_len (c # s)) (c # s)))"
  by pat_completeness auto
termination
  by (relation "measure length") auto

declare valid_utf8.simps [simp del]





text \<open>The tokens \<open>ts\<close> put before the tokens of a result of \<open>lex\<close>.\<close>

definition prepend :: "token list \<Rightarrow> (token list \<times> string) option \<Rightarrow> (token list \<times> string) option" where
  "prepend ts r = map_option (\<lambda>(us, rest). (ts @ us, rest)) r"

text \<open>The tokens of the elements of an array of strings.\<close>

fun strings_tokens :: "string list \<Rightarrow> token list" where
  "strings_tokens [] = []"
| "strings_tokens [s] = [TValue (JString s)]"
| "strings_tokens (s # s' # ss) = TValue (JString s) # TComma # strings_tokens (s' # ss)"

section \<open>The fields of a decoded card\<close>

text \<open>
  What an object gives to a field of a \<open>Card\<close>, as a description to compare \<open>decode_Card\<close>
  with: \<open>string_values name kvs\<close> are the strings among the values of the members of \<open>kvs\<close>
  whose key is \<open>name\<close> up to the case of its letters, in their order; \<open>last_string\<close> is the
  last of them, and the empty string when there is none.
\<close>

fun string_values :: "string \<Rightarrow> (string \<times> json) list \<Rightarrow> string list" where
  "string_values name [] = []"
| "string_values name ((k, JString s) # kvs) =
     (if map to_lower k = name then s # string_values name kvs else string_values name kvs)"
| "string_values name ((k, v) # kvs) = string_values name kvs"

definition last_string :: "string \<Rightarrow> (string \<times> json) list \<Rightarrow> string" where
  "last_string name kvs = (if string_values name kvs = [] then [] else last (string_values name kvs))"

section \<open>Properties of the card generator\<close>

lemma Intn_4_less: "Intn 4 r < 4"
proof -
  have "r AND 3 = take_bit 2 r"
    by (simp add: take_bit_eq_mask mask_eq_exp_minus_1)
  also have "\<dots> < 2 ^ 2"
    by (rule take_bit_nat_less_exp)
  finally show ?thesis
    by (simp add: Intn_def)
qed

lemma length_Characters: "length Characters = 4"
  by (simp add: Characters_def)

lemma index_of_Characters:
  "index_of Characters (Intn 4 r) = Inr (Characters ! Intn 4 r)"
  using Intn_4_less [of r] by (simp add: index_of_def length_Characters)

lemma Characters_nth_mem: "Characters ! Intn 4 r \<in> set Characters"
  using Intn_4_less [of r] by (simp add: length_Characters)

lemma deck_loop_result:
  "length deck = 5 \<Longrightarrow>
   \<exists>deck'. deck_loop draws i deck = Inr deck' \<and> length deck' = 5 \<and>
     (\<forall>j<i. deck' ! j = deck ! j) \<and>
     (\<forall>j. i \<le> j \<and> j < 5 \<longrightarrow> deck' ! j \<in> set Characters)"
proof (induction draws i deck rule: deck_loop.induct)
  case (1 draws i randomDeck)
  show ?case
  proof (cases "i < 5")
    case False
    with "1.prems" show ?thesis
      by (subst deck_loop.simps) auto
  next
    case True
    let ?c = "Characters ! Intn 4 (draws i)"
    let ?deck = "randomDeck[i := ?c]"
    have len: "length ?deck = 5" and inside: "i < length randomDeck"
      using "1.prems" True by simp_all
    from "1.IH" [OF True index_of_Characters inside len]
    obtain deck' where run: "deck_loop draws (i + 1) ?deck = Inr deck'"
      and len': "length deck' = 5"
      and before: "\<forall>j<i + 1. deck' ! j = ?deck ! j"
      and after: "\<forall>j. i + 1 \<le> j \<and> j < 5 \<longrightarrow> deck' ! j \<in> set Characters"
      by blast
    have here: "deck' ! i = ?c"
      using before inside by simp
    have "\<forall>j<i. deck' ! j = randomDeck ! j"
      using before by simp
    moreover have "\<forall>j. i \<le> j \<and> j < 5 \<longrightarrow> deck' ! j \<in> set Characters"
    proof (intro allI impI)
      fix j assume j: "i \<le> j \<and> j < 5"
      show "deck' ! j \<in> set Characters"
      proof (cases "j = i")
        case True
        with here Characters_nth_mem show ?thesis by simp
      next
        case False
        with j after show ?thesis by simp
      qed
    qed
    moreover have "deck_loop draws i randomDeck = Inr deck'"
      using run True inside by (subst deck_loop.simps) (simp add: index_of_Characters)
    ultimately show ?thesis
      using len' by blast
  qed
qed

lemma GenerateRandomCards_deck:
  "\<exists>deck. GenerateRandomCards draws = Inr deck \<and> length deck = 5 \<and> set deck \<subseteq> set Characters"
proof -
  from deck_loop_result [of "replicate 5 []" draws 0]
  obtain deck where run: "deck_loop draws 0 (replicate 5 []) = Inr deck"
    and len: "length deck = 5"
    and cat: "\<forall>j. 0 \<le> j \<and> j < 5 \<longrightarrow> deck ! j \<in> set Characters"
    by auto
  have "set deck \<subseteq> set Characters"
  proof
    fix c assume "c \<in> set deck"
    then obtain j where "j < length deck" "deck ! j = c"
      by (auto simp: in_set_conv_nth)
    with len cat show "c \<in> set Characters"
      by auto
  qed
  with run len show ?thesis
    by (simp add: GenerateRandomCards_def)
qed

lemma distinct_Characters: "distinct Characters"
  by (simp add: Characters_def)

text \<open>
  C9. Whatever the generator draws, \<open>GenerateRandomCards\<close> returns (it does not panic) a deck
  of exactly 5 entries, each of them an entry of the catalog \<open>Characters\<close>; the catalog has
  4 entries, all different.
\<close>

theorem GenerateRandomCards_five_from_catalog:
  "\<exists>deck. GenerateRandomCards draws = Inr deck \<and> length deck = 5 \<and>
     set deck \<subseteq> set Characters \<and> length Characters = 4 \<and> distinct Characters"
  using GenerateRandomCards_deck [of draws] by (simp add: length_Characters distinct_Characters)

section \<open>Properties of the leaderboard snapshot\<close>

lemma shift_of_small: "m < 2 ^ 53 \<Longrightarrow> shift_of m = 0"
  by (subst shift_of.simps) simp

lemma float64_of_nat_exact: "m \<le> 2 ^ 53 \<Longrightarrow> float64_of_nat m = m"
proof (cases "m < 2 ^ 53")
  case True
  then show ?thesis
    by (simp add: float64_of_nat_def shift_of_small)
next
  case False
  assume "m \<le> 2 ^ 53"
  with False have m: "m = 2 ^ 53" by simp
  have "shift_of (2 ^ 53) = Suc (shift_of (2 ^ 52))"
    by (subst shift_of.simps) simp
  then have "shift_of m = 1"
    using m by (simp add: shift_of_small)
  then show ?thesis
    using m by (simp add: float64_of_nat_def)
qed

lemma float64_of_int_exact: "\<bar>n\<bar> \<le> 2 ^ 53 \<Longrightarrow> float64_of_int n = n"
proof -
  assume a: "\<bar>n\<bar> \<le> 2 ^ 53"
  have "nat \<bar>n\<bar> \<le> 2 ^ 53"
    using a by (simp add: nat_le_iff)
  then have "float64_of_nat (nat \<bar>n\<bar>) = nat \<bar>n\<bar>"
    by (rule float64_of_nat_exact)
  then show ?thesis
    by (cases "n < 0") (simp_all add: float64_of_int_def)
qed

lemma format_loop_map: "format_loop l acc = acc @ map entry_of l"
  by (induction l acc rule: format_loop.induct) (simp_all add: entry_of_def)

lemma apply_op_ok: "leaderboard_ok db \<Longrightarrow> leaderboard_ok (apply_op op db)"
  by (cases op)
     (auto simp: leaderboard_ok_def ZAdd_def ZRem_def ignore_error_def Let_def
        distinct_update distinct_delete split: option.splits rvalue.splits)

lemma delete_last_member: "AList.delete k z = [] \<Longrightarrow> (map_of z)(k := None) = Map.empty"
  using delete_conv' [of k z] by simp

lemma apply_op_members: "leaderboard_ok db \<Longrightarrow> members (apply_op op db) = commit op (members db)"
  by (cases op)
     (auto simp: leaderboard_ok_def members_def ZAdd_def ZRem_def ignore_error_def Let_def
        update_conv' delete_conv' delete_last_member split: option.splits rvalue.splits)

lemma fold_apply_op:
  "leaderboard_ok db \<Longrightarrow>
   leaderboard_ok (fold apply_op ops db) \<and> members (fold apply_op ops db) = fold commit ops (members db)"
  by (induction ops arbitrary: db) (simp_all add: apply_op_ok apply_op_members)

lemma commit_range:
  "\<forall>s \<in> ran m. int_range s \<Longrightarrow>
   (case op of Upsert n s \<Rightarrow> int_range (float64_of_int s) | Remove n \<Rightarrow> True) \<Longrightarrow>
   \<forall>s \<in> ran (commit op m). int_range s"
  by (cases op) (auto simp: ran_def split: if_splits)

lemma fold_commit_range:
  "\<forall>s \<in> ran m. int_range s \<Longrightarrow>
   \<forall>op \<in> set ops. (case op of Upsert n s \<Rightarrow> int_range (float64_of_int s) | Remove n \<Rightarrow> True) \<Longrightarrow>
   \<forall>s \<in> ran (fold commit ops m). int_range s"
proof (induction ops arbitrary: m)
  case Nil
  then show ?case by simp
next
  case (Cons op ops)
  from Cons.prems have "\<forall>s \<in> ran (commit op m). int_range s"
    by (intro commit_range) simp_all
  with Cons.IH [of "commit op m"] Cons.prems(2) show ?case
    by simp
qed

lemma set_ranked: "set (ranked z) = set z"
  by (simp add: ranked_def)

lemma distinct_ranked: "distinct (map fst z) \<Longrightarrow> distinct (map fst (ranked z))"
  by (simp add: ranked_def distinct_map rev_map [symmetric] del: rev_map)

lemma map_of_ranked: "distinct (map fst z) \<Longrightarrow> map_of (ranked z) = map_of z"
  using distinct_ranked [of z] set_ranked [of z] by (simp add: map_of_inject_set)

lemma sorted_ranked: "sorted_wrt (\<lambda>a b. snd a \<ge> snd b) (ranked z)"
proof -
  let ?k = "\<lambda>(member :: string, score :: int). (score, member)"
  have "sorted (map ?k (sort_key ?k z))"
    by (rule sorted_sort_key)
  then have "sorted_wrt (\<lambda>a b. ?k a \<le> ?k b) (sort_key ?k z)"
    by (simp add: sorted_map)
  then have "sorted_wrt (\<lambda>a b. snd a \<le> snd b) (sort_key ?k z)"
    by (rule sorted_wrt_mono_rel [rotated]) (auto simp: less_eq_prod_def)
  then show ?thesis
    by (simp add: ranked_def sorted_wrt_rev)
qed

lemma snapshot_ranked:
  "getLatestLeaderboard db =
     (case db ''leaderboard'' of
        None \<Rightarrow> Inr []
      | Some (ZSet z) \<Rightarrow> Inr (map entry_of (ranked z))
      | Some (Hash h) \<Rightarrow> Inl WRONGTYPE)"
  by (simp add: getLatestLeaderboard_def ZRevRangeWithScores_def format_loop_map ranked_def
        split: option.splits rvalue.splits)

lemma entries_of_ranked:
  assumes "distinct (map fst z)" and "\<forall>s \<in> ran (map_of z). int_range s"
  shows "distinct (map UserName (map entry_of (ranked z)))"
    and "map_of (map (\<lambda>e. (UserName e, UserScore e)) (map entry_of (ranked z))) = map_of z"
    and "sorted_wrt (\<lambda>a b. UserScore a \<ge> UserScore b) (map entry_of (ranked z))"
proof -
  have names: "map UserName (map entry_of (ranked z)) = map fst (ranked z)"
    by (simp add: entry_of_def case_prod_unfold)
  have "snd p \<in> ran (map_of z)" if "p \<in> set z" for p
    using that assms(1) by (simp add: ran_distinct)
  then have exact: "int_of_float64 (snd p) = snd p" if "p \<in> set (ranked z)" for p
    using that assms(2) by (auto simp: set_ranked int_of_float64_def int_range_def)
  then have pairs: "map (\<lambda>e. (UserName e, UserScore e)) (map entry_of (ranked z)) = ranked z"
    by (simp add: entry_of_def case_prod_unfold map_idI)
  show "distinct (map UserName (map entry_of (ranked z)))"
    using assms(1) by (simp only: names distinct_ranked)
  show "map_of (map (\<lambda>e. (UserName e, UserScore e)) (map entry_of (ranked z))) = map_of z"
    using assms(1) by (simp only: pairs map_of_ranked)
  have scores: "map UserScore (map entry_of (ranked z)) = map snd (ranked z)"
    using exact by (simp add: entry_of_def case_prod_unfold)
  have "sorted_wrt (\<lambda>a b. a \<ge> b) (map snd (ranked z))"
    using sorted_ranked [of z] by (simp add: sorted_wrt_map)
  then have "sorted_wrt (\<lambda>a b. a \<ge> b) (map UserScore (map entry_of (ranked z)))"
    by (simp only: scores)
  then show "sorted_wrt (\<lambda>a b. UserScore a \<ge> UserScore b) (map entry_of (ranked z))"
    by (simp only: sorted_wrt_map)
qed

text \<open>
  C1 (as amended). Let the key \<open>leaderboard\<close> be free or hold a sorted set, with scores that an
  \<open>int\<close> holds, and let any sequence of upserts and removals be committed, each upserted
  score converting to a \<open>float64\<close> that an \<open>int\<close> holds. Then \<open>getLatestLeaderboard\<close> returns a
  sequence with one entry per member, whose entries are exactly the committed members with
  the score of their last upsert (as the \<open>float64\<close> it was stored as), in non-increasing
  order of score: an entry never precedes one of a higher score. Equal scores are possible,
  so the order is not strict.
\<close>

theorem snapshot_after_writes:
  assumes ok: "leaderboard_ok db"
    and init: "\<forall>s \<in> ran (members db). int_range s"
    and ops: "\<forall>op \<in> set ops. (case op of Upsert n s \<Rightarrow> int_range (float64_of_int s) | Remove n \<Rightarrow> True)"
  shows "\<exists>lb. getLatestLeaderboard (fold apply_op ops db) = Inr lb \<and>
           distinct (map UserName lb) \<and>
           map_of (map (\<lambda>e. (UserName e, UserScore e)) lb) = fold commit ops (members db) \<and>
           sorted_wrt (\<lambda>a b. UserScore a \<ge> UserScore b) lb"
proof -
  let ?db = "fold apply_op ops db"
  from fold_apply_op [OF ok, of ops]
  have ok': "leaderboard_ok ?db" and mem: "members ?db = fold commit ops (members db)"
    by simp_all
  from fold_commit_range [OF init ops] mem
  have range: "\<forall>s \<in> ran (members ?db). int_range s"
    by simp
  show ?thesis
  proof (cases "?db ''leaderboard''")
    case None
    with mem show ?thesis
      by (simp add: snapshot_ranked members_def)
  next
    case (Some v)
    with ok' obtain z where z: "?db ''leaderboard'' = Some (ZSet z)" "distinct (map fst z)"
      by (cases v) (simp_all add: leaderboard_ok_def)
    with range have "\<forall>s \<in> ran (map_of z). int_range s"
      by (simp add: members_def)
    from entries_of_ranked [OF z(2) this] z(1) mem show ?thesis
      by (simp add: snapshot_ranked members_def)
  qed
qed

theorem snapshot_after_writes_witness:
  "\<exists>lb. getLatestLeaderboard
          (fold apply_op [Upsert ''a'' 5, Upsert ''b'' 7, Upsert ''a'' 3, Remove ''c''] Map.empty) = Inr lb \<and>
        distinct (map UserName lb) \<and>
        map_of (map (\<lambda>e. (UserName e, UserScore e)) lb) =
          fold commit [Upsert ''a'' 5, Upsert ''b'' 7, Upsert ''a'' 3, Remove ''c''] (members Map.empty) \<and>
        sorted_wrt (\<lambda>a b. UserScore a \<ge> UserScore b) lb"
  by (rule snapshot_after_writes)
     (simp_all add: leaderboard_ok_def members_def int_range_def float64_of_int_exact)

text \<open>
  C1 as stated fails: two members upserted with the same score are both listed, so the scores
  of the snapshot are not strictly descending.
\<close>

theorem snapshot_tie_counterexample:
  "getLatestLeaderboard (fold apply_op [Upsert ''a'' 1, Upsert ''b'' 1] Map.empty) =
     Inr [\<lparr>UserName = ''b'', UserScore = 1\<rparr>, \<lparr>UserName = ''a'', UserScore = 1\<rparr>] \<and>
   \<not> sorted_wrt (\<lambda>a b. UserScore a > UserScore b)
     [\<lparr>UserName = ''b'', UserScore = 1\<rparr>, \<lparr>UserName = ''a'', UserScore = 1\<rparr>]"
  by (simp add: float64_of_int_exact ZAdd_def ignore_error_def getLatestLeaderboard_def
        ZRevRangeWithScores_def int_of_float64_def less_eq_prod_def less_prod_def)

section \<open>Properties of the WebSocket loop\<close>

lemma log_Println_fields [simp]:
  "leaderboardMap (log_Println line st) = leaderboardMap st"
  "written (log_Println line st) = written st"
  "writeErr (log_Println line st) = writeErr st"
  "logged (log_Println line st) = logged st @ [line]"
  by (simp_all add: log_Println_def)

lemma updateLeaderboard_fields [simp]:
  "written (updateLeaderboard userName st) = written st"
  "writeErr (updateLeaderboard userName st) = writeErr st"
  "logged (updateLeaderboard userName st) = logged st"
  by (simp_all add: updateLeaderboard_def)

lemma leaderboardMap_updateLeaderboard:
  "leaderboardMap (updateLeaderboard userName st) name =
     leaderboardMap st name + (if name = userName then 1 else 0)"
  by (simp add: updateLeaderboard_def)

lemma leaderboardMap_emitLeaderboard [simp]:
  "leaderboardMap (emitLeaderboard e leaderboard messageType st) = leaderboardMap st"
  by (simp add: emitLeaderboard_def Marshal_leaderboard_def WriteMessage_def split: option.splits)

lemma emitLeaderboard_first_failure:
  "writeErr st = None \<Longrightarrow>
     emitLeaderboard (Some err) leaderboard messageType st =
       log_Println ''Error writing leaderboard:'' (st\<lparr>writeErr := Some err\<rparr>)"
  by (simp add: emitLeaderboard_def Marshal_leaderboard_def WriteMessage_def)

lemma emitLeaderboard_broken:
  "writeErr st \<noteq> None \<Longrightarrow>
     emitLeaderboard e leaderboard messageType st = log_Println ''Error writing leaderboard:'' st"
  by (auto simp: emitLeaderboard_def Marshal_leaderboard_def WriteMessage_def)

lemma emitLeaderboard_log_grows:
  "\<exists>ls. logged (emitLeaderboard e leaderboard messageType st) = logged st @ ls"
  by (simp add: emitLeaderboard_def Marshal_leaderboard_def WriteMessage_def split: option.splits)

lemma websocketLoop_exit: "snd (websocketLoop evs st) = list_ex (\<lambda>ev. isl (received ev)) evs"
proof (induction evs arbitrary: st)
  case Nil
  show ?case by simp
next
  case (Cons ev evs)
  show ?case
  proof (cases "received ev")
    case (Inl err)
    then show ?thesis by simp
  next
    case (Inr m)
    then show ?thesis
      using Cons.IH by (cases m) (simp add: Let_def split: sum.splits)
  qed
qed

lemma websocketLoop_tally:
  "leaderboardMap (fst (websocketLoop evs st)) name =
     leaderboardMap st name + of_nat (count_list (messages_read evs) name)"
proof (induction evs arbitrary: st)
  case Nil
  show ?case by simp
next
  case (Cons ev evs)
  show ?case
  proof (cases "received ev")
    case (Inl err)
    then show ?thesis by simp
  next
    case (Inr m)
    obtain messageType message where m: "m = (messageType, message)"
      by (cases m)
    show ?thesis
    proof (cases "getLatestLeaderboard (db_now ev)")
      case (Inl err)
      with Inr m show ?thesis
        by (simp add: Cons.IH Let_def leaderboardMap_updateLeaderboard)
    next
      case lb: (Inr leaderboard)
      with Inr m show ?thesis
        by (simp add: Cons.IH Let_def leaderboardMap_updateLeaderboard)
    qed
  qed
qed

lemma websocketLoop_broken:
  "writeErr st = Some err \<Longrightarrow>
     written (fst (websocketLoop evs st)) = written st \<and>
     writeErr (fst (websocketLoop evs st)) = Some err"
proof (induction evs arbitrary: st)
  case Nil
  then show ?case by simp
next
  case (Cons ev evs)
  show ?case
  proof (cases "received ev")
    case (Inl e)
    with Cons.prems show ?thesis by simp
  next
    case (Inr m)
    obtain messageType message where m: "m = (messageType, message)"
      by (cases m)
    let ?st1 = "updateLeaderboard message (log_Println (''Received message: '' @ message) st)"
    have broken: "writeErr ?st1 = Some err" and same: "written ?st1 = written st"
      using Cons.prems by simp_all
    show ?thesis
    proof (cases "getLatestLeaderboard (db_now ev)")
      case (Inl e)
      let ?st2 = "log_Println ''Error fetching latest leaderboard:'' ?st1"
      have "writeErr ?st2 = Some err" "written ?st2 = written st"
        using broken same by simp_all
      with Cons.IH [of ?st2] Inr m Inl show ?thesis
        by (simp add: Let_def)
    next
      case lb: (Inr leaderboard)
      let ?st2 = "log_Println ''Error writing leaderboard:'' ?st1"
      have "writeErr ?st2 = Some err" "written ?st2 = written st"
        using broken same by simp_all
      with Cons.IH [of ?st2] Inr m lb Cons.prems show ?thesis
        by (simp add: Let_def emitLeaderboard_broken)
    qed
  qed
qed

lemma websocketLoop_log_grows: "\<exists>ls. logged (fst (websocketLoop evs st)) = logged st @ ls"
proof (induction evs arbitrary: st)
  case Nil
  show ?case by simp
next
  case (Cons ev evs)
  show ?case
  proof (cases "received ev")
    case (Inl e)
    then show ?thesis by simp
  next
    case (Inr m)
    obtain messageType message where m: "m = (messageType, message)"
      by (cases m)
    let ?st1 = "updateLeaderboard message (log_Println (''Received message: '' @ message) st)"
    show ?thesis
    proof (cases "getLatestLeaderboard (db_now ev)")
      case (Inl e)
      let ?st2 = "log_Println ''Error fetching latest leaderboard:'' ?st1"
      from Cons.IH [of ?st2] obtain ls where "logged (fst (websocketLoop evs ?st2)) = logged ?st2 @ ls"
        by blast
      with Inr m Inl show ?thesis
        by (simp add: Let_def)
    next
      case lb: (Inr leaderboard)
      let ?st2 = "emitLeaderboard (write_error ev) leaderboard messageType ?st1"
      from Cons.IH [of ?st2] obtain ls where ls: "logged (fst (websocketLoop evs ?st2)) = logged ?st2 @ ls"
        by blast
      from emitLeaderboard_log_grows [of "write_error ev" leaderboard messageType ?st1]
      obtain ls' where "logged ?st2 = logged ?st1 @ ls'"
        by blast
      with ls Inr m lb show ?thesis
        by (simp add: Let_def)
    qed
  qed
qed

lemma websocketLoop_received_logged:
  "m \<in> set (messages_read evs) \<Longrightarrow>
     (''Received message: '' @ m) \<in> set (logged (fst (websocketLoop evs st)))"
proof (induction evs arbitrary: st)
  case Nil
  then show ?case by simp
next
  case (Cons ev evs)
  show ?case
  proof (cases "received ev")
    case (Inl e)
    with Cons.prems show ?thesis by simp
  next
    case (Inr p)
    obtain messageType message where p: "p = (messageType, message)"
      by (cases p)
    let ?st1 = "updateLeaderboard message (log_Println (''Received message: '' @ message) st)"
    obtain st2 where step: "websocketLoop (ev # evs) st = websocketLoop evs st2"
      and grown: "\<exists>ls. logged st2 = logged ?st1 @ ls"
    proof (cases "getLatestLeaderboard (db_now ev)")
      case (Inl e)
      with Inr p that [of "log_Println ''Error fetching latest leaderboard:'' ?st1"] show ?thesis
        by (simp add: Let_def)
    next
      case lb: (Inr leaderboard)
      with Inr p emitLeaderboard_log_grows [of "write_error ev" leaderboard messageType ?st1]
        that [of "emitLeaderboard (write_error ev) leaderboard messageType ?st1"] show ?thesis
        by (simp add: Let_def)
    qed
    show ?thesis
    proof (cases "m = message")
      case True
      from grown have "(''Received message: '' @ m) \<in> set (logged st2)"
        using True by auto
      moreover from websocketLoop_log_grows [of evs st2]
      have "set (logged st2) \<subseteq> set (logged (fst (websocketLoop evs st2)))"
        by auto
      ultimately show ?thesis
        unfolding step by blast
    next
      case False
      with Cons.prems Inr p have "m \<in> set (messages_read evs)"
        by simp
      from Cons.IH [OF this, of st2] show ?thesis
        unfolding step .
    qed
  qed
qed

text \<open>
  C3 (as amended). When a message has been read and the snapshot taken, and the write of the
  snapshot fails on a connection that had not failed before, \<open>emitLeaderboard\<close> logs the
  error and the loop goes on with the next read: the handler does not close the connection.
  The loop ends exactly when a read fails. Every message read before that is logged as
  received and counted in the tally (an \<open>int\<close>, which wraps). The connection keeps the error
  of the failed write, so nothing is written to it from then on.
\<close>

theorem write_failure_is_logged_and_loop_goes_on:
  assumes "received ev = Inr (messageType, message)"
    and "getLatestLeaderboard (db_now ev) = Inr leaderboard"
    and "writeErr st = None"
    and "write_error ev = Some err"
  shows "websocketLoop (ev # evs) st =
           websocketLoop evs
             (log_Println ''Error writing leaderboard:''
               ((updateLeaderboard message (log_Println (''Received message: '' @ message) st))
                  \<lparr>writeErr := Some err\<rparr>)) \<and>
         snd (websocketLoop (ev # evs) st) = list_ex (\<lambda>ev. isl (received ev)) evs \<and>
         leaderboardMap (fst (websocketLoop (ev # evs) st)) name =
           leaderboardMap st name + of_nat (count_list (message # messages_read evs) name) \<and>
         (\<forall>m \<in> set (message # messages_read evs).
            (''Received message: '' @ m) \<in> set (logged (fst (websocketLoop (ev # evs) st)))) \<and>
         written (fst (websocketLoop (ev # evs) st)) = written st \<and>
         writeErr (fst (websocketLoop (ev # evs) st)) = Some err"
proof -
  let ?st1 = "updateLeaderboard message (log_Println (''Received message: '' @ message) st)"
  let ?st2 = "log_Println ''Error writing leaderboard:'' (?st1\<lparr>writeErr := Some err\<rparr>)"
  have "writeErr ?st1 = None"
    using assms(3) by simp
  then have step: "websocketLoop (ev # evs) st = websocketLoop evs ?st2"
    using assms(1,2,4) by (simp add: Let_def emitLeaderboard_first_failure)
  have read: "messages_read (ev # evs) = message # messages_read evs"
    using assms(1) by simp
  have "writeErr ?st2 = Some err" and "written ?st2 = written st"
    by simp_all
  with websocketLoop_broken [of ?st2 err evs]
  have broken: "written (fst (websocketLoop evs ?st2)) = written st"
    "writeErr (fst (websocketLoop evs ?st2)) = Some err"
    by simp_all
  have "snd (websocketLoop (ev # evs) st) = list_ex (\<lambda>ev. isl (received ev)) evs"
    using assms(1) websocketLoop_exit [of "ev # evs" st] by simp
  moreover have "leaderboardMap (fst (websocketLoop (ev # evs) st)) name =
      leaderboardMap st name + of_nat (count_list (message # messages_read evs) name)"
    using websocketLoop_tally [of "ev # evs" st name] unfolding read .
  moreover have "\<forall>m \<in> set (message # messages_read evs).
      (''Received message: '' @ m) \<in> set (logged (fst (websocketLoop (ev # evs) st)))"
    using websocketLoop_received_logged [of _ "ev # evs" st] unfolding read by blast
  ultimately show ?thesis
    using step broken by simp
qed

theorem write_failure_witness:
  "snd (websocketLoop
     [\<lparr>received = Inr (1, ''a''), db_now = Map.empty, write_error = Some ''broken pipe''\<rparr>,
      \<lparr>received = Inr (1, ''b''), db_now = Map.empty, write_error = Some ''broken pipe''\<rparr>]
     initial_ws_state)
   = list_ex (\<lambda>ev. isl (received ev))
       [\<lparr>received = Inr (1, ''b''), db_now = Map.empty, write_error = Some ''broken pipe''\<rparr>] \<and>
   written (fst (websocketLoop
     [\<lparr>received = Inr (1, ''a''), db_now = Map.empty, write_error = Some ''broken pipe''\<rparr>,
      \<lparr>received = Inr (1, ''b''), db_now = Map.empty, write_error = Some ''broken pipe''\<rparr>]
     initial_ws_state)) = written initial_ws_state"
proof -
  let ?ev = "\<lparr>received = Inr (1, ''a''), db_now = Map.empty, write_error = Some ''broken pipe''\<rparr>"
  have "received ?ev = Inr (1, ''a'')" "getLatestLeaderboard (db_now ?ev) = Inr []"
    "writeErr initial_ws_state = None" "write_error ?ev = Some ''broken pipe''"
    by (simp_all add: getLatestLeaderboard_def ZRevRangeWithScores_def initial_ws_state_def)
  from write_failure_is_logged_and_loop_goes_on [OF this] show ?thesis
    by blast
qed

text \<open>
  C3 as stated fails: the write of the first snapshot fails, and the loop still reads the
  second message, counts it in the tally and tries to write its snapshot, which fails again;
  the loop has not ended.
\<close>

theorem write_failure_counterexample:
  "snd (websocketLoop
     [\<lparr>received = Inr (1, ''a''), db_now = Map.empty, write_error = Some ''broken pipe''\<rparr>,
      \<lparr>received = Inr (1, ''b''), db_now = Map.empty, write_error = Some ''broken pipe''\<rparr>]
     initial_ws_state)
     = False \<and>
   leaderboardMap (fst (websocketLoop
     [\<lparr>received = Inr (1, ''a''), db_now = Map.empty, write_error = Some ''broken pipe''\<rparr>,
      \<lparr>received = Inr (1, ''b''), db_now = Map.empty, write_error = Some ''broken pipe''\<rparr>]
     initial_ws_state)) ''b''
     = 1 \<and>
   written (fst (websocketLoop
     [\<lparr>received = Inr (1, ''a''), db_now = Map.empty, write_error = Some ''broken pipe''\<rparr>,
      \<lparr>received = Inr (1, ''b''), db_now = Map.empty, write_error = Some ''broken pipe''\<rparr>]
     initial_ws_state))
     = [] \<and>
   logged (fst (websocketLoop
     [\<lparr>received = Inr (1, ''a''), db_now = Map.empty, write_error = Some ''broken pipe''\<rparr>,
      \<lparr>received = Inr (1, ''b''), db_now = Map.empty, write_error = Some ''broken pipe''\<rparr>]
     initial_ws_state))
     = [''Received message: a'', ''Error writing leaderboard:'',
        ''Received message: b'', ''Error writing leaderboard:'']"
  by (simp add: initial_ws_state_def getLatestLeaderboard_def ZRevRangeWithScores_def
        emitLeaderboard_def Marshal_leaderboard_def WriteMessage_def
        updateLeaderboard_def log_Println_def)

section \<open>Properties of DELETE /game and PUT /game on a bad request\<close>

text \<open>
  C7. When the body of a DELETE /game request has been decoded and its \<open>userName\<close> is empty
  (or missing), \<open>resetGame\<close> answers \<open>400 Missing userName in request body\<close> and leaves the
  store as it was: neither the hash write nor the leaderboard removal is made.
\<close>

theorem resetGame_empty_userName:
  assumes "Decode_map_string body = Some requestBody"
    and "field requestBody ''userName'' = []"
  shows "resetGame body db = (db, HttpError ''Missing userName in request body'' 400)"
  using assms by (simp add: resetGame_def)

theorem resetGame_empty_userName_witness:
  \<open>resetGame ''{"userName":""}'' [''bob'' \<mapsto> Hash [''score'' \<mapsto> ''3'']] =
     ([''bob'' \<mapsto> Hash [''score'' \<mapsto> ''3'']], HttpError ''Missing userName in request body'' 400)\<close>
proof -
  have \<open>first_value ''{"userName":""}'' = Some (JObject [(''userName'', JString [])], [])\<close>
    by code_simp
  then have \<open>Decode_map_string ''{"userName":""}'' = Some [''userName'' \<mapsto> []]\<close>
    by (simp add: Decode_map_string_def)
  moreover have "field [''userName'' \<mapsto> []] ''userName'' = []"
    by (simp add: field_def)
  ultimately show ?thesis
    by (rule resetGame_empty_userName)
qed

text \<open>
  C10. A PUT /game body can be decoded without error and still make \<open>updateGameData\<close> panic:
  whenever the decoded body has no \<open>score\<close> that is a string, or no \<open>gameCards\<close> that is an
  array, one of the two type assertions with a single result fails, so the handler panics
  (it answers neither 400 nor anything else) and has written nothing to the store.
\<close>

theorem updateGameData_unchecked_assertions:
  assumes "Decode_map_any fmt body = Some requestBody"
    and "assert_string (map_of requestBody ''score'') = Inl p
       \<or> assert_slice (map_of requestBody ''gameCards'') = Inl p"
  shows "updateGameData fmt body db = (db, Panicked InterfaceConversion)"
proof (cases "assert_string (map_of requestBody ''score'')")
  case (Inl q)
  have "q = InterfaceConversion"
    using Inl by (cases "map_of requestBody ''score''" rule: assert_string.cases) simp_all
  with Inl assms(1) show ?thesis
    by (simp add: updateGameData_def)
next
  case (Inr scoreText)
  with assms(2) have cards: "assert_slice (map_of requestBody ''gameCards'') = Inl p"
    by simp
  have "p = InterfaceConversion"
    using cards by (cases "map_of requestBody ''gameCards''" rule: assert_slice.cases) simp_all
  with Inr cards assms(1) show ?thesis
    by (simp add: updateGameData_def Let_def)
qed

theorem updateGameData_unchecked_assertions_witness:
  \<open>updateGameData Some ''{"userName":"alice","score":7}'' Map.empty =
     (Map.empty, Panicked InterfaceConversion)\<close>
proof -
  have \<open>first_value ''{"userName":"alice","score":7}'' =
      Some (JObject [(''userName'', JString ''alice''), (''score'', JNumber ''7'')], [])\<close>
    by code_simp
  then have \<open>Decode_map_any Some ''{"userName":"alice","score":7}'' =
      Some [(''score'', AFloat64 ''7''), (''userName'', AString ''alice'')]\<close>
    by (simp add: Decode_map_any_def go_map_def less_list_code)
  moreover have "assert_string (map_of [(''score'', AFloat64 ''7''), (''userName'', AString ''alice'')] ''score'')
      = Inl InterfaceConversion \<or>
    assert_slice (map_of [(''score'', AFloat64 ''7''), (''userName'', AString ''alice'')] ''gameCards'')
      = Inl InterfaceConversion"
    by simp
  ultimately show ?thesis
    by (rule updateGameData_unchecked_assertions)
qed

section \<open>Properties of the store commands\<close>

lemma digit_char_0: "digit_char 0 = CHR ''0''"
  by code_simp

lemma FormatInt_0: "FormatInt 0 = ''0''"
  by (simp add: FormatInt_def digits_of.simps digit_char_0)

lemma Atoi_0: "Atoi ''0'' = (0, None)"
  by (simp add: Atoi_def is_digit_def digit_val_def)


lemma ParseBool_false: "ParseBool ''false'' = (False, None)"
  by (simp add: ParseBool_def)

lemma Unmarshal_Cards_empty: "Unmarshal_Cards ''[]'' = ([], False)"
proof -
  have "whole_value ''[]'' = Some (JArray [])"
    by code_simp
  then show ?thesis
    by (simp add: Unmarshal_Cards_def)
qed

lemma Exists_iff: "Exists db key = 0 \<longleftrightarrow> db key = None"
  by (simp add: Exists_def)

lemma HMSet_new: "db key = None \<Longrightarrow> HMSet db key fvs = Inr (db(key \<mapsto> Hash (set_fields fvs Map.empty)))"
  by (simp add: HMSet_def)


lemma HMSet_result:
  "HMSet db key fvs = Inr db' \<Longrightarrow>
     \<exists>h. db' = db(key \<mapsto> Hash (set_fields fvs h)) \<and> (db key = None \<or> db key = Some (Hash h))"
  by (auto simp: HMSet_def split: option.splits rvalue.splits)

lemma ZAdd_other_key:
  "key \<noteq> k \<Longrightarrow> ignore_error db (ZAdd db key score member) k = db k"
  by (simp add: ZAdd_def ignore_error_def split: option.splits rvalue.splits)

lemma ZRem_other_key:
  "key \<noteq> k \<Longrightarrow> ignore_error db (ZRem db key member) k = db k"
  by (simp add: ZRem_def ignore_error_def Let_def split: option.splits rvalue.splits)

lemma ZAdd_on_hash: "db key = Some (Hash h) \<Longrightarrow> ignore_error db (ZAdd db key score member) = db"
  by (simp add: ZAdd_def ignore_error_def)

lemma ZRem_on_hash: "db key = Some (Hash h) \<Longrightarrow> ignore_error db (ZRem db key member) = db"
  by (simp add: ZRem_def ignore_error_def)

lemma getLatestLeaderboard_on_hash: "db ''leaderboard'' = Some (Hash h) \<Longrightarrow> getLatestLeaderboard db = Inl WRONGTYPE"
  by (simp add: getLatestLeaderboard_def ZRevRangeWithScores_def)

section \<open>Properties of the initialisation in GET /game\<close>

lemma initialize_existing: "db userName \<noteq> None \<Longrightarrow> initialize draws userName db = Inr db"
  by (auto simp: initialize_def Exists_def)

lemma initialize_no_name: "initialize draws [] db = Inr db"
  by (simp add: initialize_def)

lemma initialize_new:
  assumes "db userName = None" and "userName \<noteq> []"
  shows "\<exists>deck. GenerateRandomCards draws = Inr deck \<and>
           initialize draws userName db =
             Inr (ignore_error
                   (db(userName \<mapsto> Hash [''score'' \<mapsto> ''0'', ''gameCards'' \<mapsto> marshal_strings deck,
                                         ''hasDefuseCard'' \<mapsto> ''0'', ''activeCard'' \<mapsto> []]))
                   (ZAdd (db(userName \<mapsto> Hash [''score'' \<mapsto> ''0'', ''gameCards'' \<mapsto> marshal_strings deck,
                                         ''hasDefuseCard'' \<mapsto> ''0'', ''activeCard'' \<mapsto> []]))
                      ''leaderboard'' 0 userName))"
proof -
  from GenerateRandomCards_deck obtain deck where deck: "GenerateRandomCards draws = Inr deck"
    by blast
  with assms show ?thesis
    by (simp add: initialize_def Exists_def HMSet_new set_fields_def FormatInt_0 redis_bool_def)
qed

lemma initialize_key_exists:
  assumes "initialize draws userName db = Inr db'" and "userName \<noteq> []"
  shows "db' userName \<noteq> None"
proof (cases "db userName")
  case (Some v)
  with assms(1) show ?thesis
    by (simp add: initialize_existing)
next
  case None
  from initialize_new [of db userName draws, OF None assms(2)] assms(1)
  obtain fields where db': "db' = ignore_error (db(userName \<mapsto> Hash fields))
      (ZAdd (db(userName \<mapsto> Hash fields)) ''leaderboard'' 0 userName)"
    by auto
  show ?thesis
  proof (cases "userName = ''leaderboard''")
    case True
    then have "db' = db(userName \<mapsto> Hash fields)"
      using db' ZAdd_on_hash [of "db(userName \<mapsto> Hash fields)" "''leaderboard''" fields] by simp
    then show ?thesis by simp
  next
    case False
    then have "db' userName = (db(userName \<mapsto> Hash fields)) userName"
      unfolding db' by (intro ZAdd_other_key) simp
    then show ?thesis by simp
  qed
qed

text \<open>
  C4. The initialisation of GET /game always returns a store (it neither answers early nor
  panics), and run a second time on that store, with any random draws, it returns the same
  store: the key exists now, or the name is empty, so the branch is skipped. On any store
  where the player's key exists the initialisation changes nothing, and two GET /game
  requests for a name leave the store that the first one left.
\<close>

theorem initialize_idempotent:
  "(\<exists>db1. initialize draws1 userName db = Inr db1 \<and> initialize draws2 userName db1 = Inr db1) \<and>
   initialize draws1 userName (db(userName \<mapsto> v)) = Inr (db(userName \<mapsto> v)) \<and>
   fst (gameHandler draws2 userName (fst (gameHandler draws1 userName db))) =
     fst (gameHandler draws1 userName db)"
proof -
  have first: "\<exists>db1. initialize draws1 userName db = Inr db1"
  proof (cases "db userName = None \<and> userName \<noteq> []")
    case True
    then have "db userName = None" "userName \<noteq> []"
      by simp_all
    from initialize_new [of db userName draws1, OF this] show ?thesis
      by blast
  next
    case False
    then show ?thesis
      using initialize_existing [of db userName draws1] initialize_no_name [of draws1 db] by auto
  qed
  then obtain db1 where db1: "initialize draws1 userName db = Inr db1"
    by blast
  have second: "initialize draws2 userName db1 = Inr db1"
  proof (cases "userName = []")
    case True
    then show ?thesis by (simp add: initialize_no_name)
  next
    case False
    from initialize_key_exists [OF db1 False] show ?thesis
      by (rule initialize_existing)
  qed
  have handler: "fst (gameHandler draws u d) = d'" if "initialize draws u d = Inr d'" for draws u d d'
    using that by (simp add: gameHandler_def split: sum.splits)
  have "fst (gameHandler draws1 userName db) = db1"
    using db1 by (rule handler)
  moreover have "fst (gameHandler draws2 userName db1) = db1"
    using second by (rule handler)
  moreover have "initialize draws1 userName (db(userName \<mapsto> v)) = Inr (db(userName \<mapsto> v))"
    by (rule initialize_existing) simp
  ultimately show ?thesis
    using db1 second by simp
qed

lemma members_other_key:
  "db' ''leaderboard'' = db ''leaderboard'' \<Longrightarrow> members db' = members db"
  by (simp add: members_def)

lemma initialize_seeds:
  assumes free: "db userName = None" and name: "userName \<noteq> []"
    and other: "userName \<noteq> ''leaderboard''" and ok: "leaderboard_ok db"
  shows "\<exists>deck db'. GenerateRandomCards draws = Inr deck \<and> length deck = 5 \<and>
           set deck \<subseteq> set Characters \<and>
           initialize draws userName db = Inr db' \<and>
           db' userName = Some (Hash [''score'' \<mapsto> ''0'', ''gameCards'' \<mapsto> marshal_strings deck,
                                      ''hasDefuseCard'' \<mapsto> ''0'', ''activeCard'' \<mapsto> []]) \<and>
           members db' = (members db)(userName \<mapsto> 0) \<and> leaderboard_ok db'"
proof -
  from GenerateRandomCards_deck obtain deck where deck: "GenerateRandomCards draws = Inr deck"
    "length deck = 5" "set deck \<subseteq> set Characters"
    by blast
  let ?fields = "[''score'' \<mapsto> ''0'', ''gameCards'' \<mapsto> marshal_strings deck,
                   ''hasDefuseCard'' \<mapsto> ''0'', ''activeCard'' \<mapsto> []]"
  let ?db1 = "db(userName \<mapsto> Hash ?fields)"
  let ?db' = "apply_op (Upsert userName 0) ?db1"
  have init: "initialize draws userName db = Inr ?db'"
    using initialize_new [of db userName draws, OF free name] deck(1)
    by (simp add: float64_of_int_exact)
  have ok1: "leaderboard_ok ?db1"
    using ok other by (simp add: leaderboard_ok_def)
  have "members ?db1 = members db"
    using other by (intro members_other_key) simp
  with apply_op_members [OF ok1, of "Upsert userName 0"]
  have mem: "members ?db' = (members db)(userName \<mapsto> 0)"
    by (simp add: float64_of_int_exact)
  have "?db' userName = ?db1 userName"
    using other by (simp add: ZAdd_other_key)
  then have key: "?db' userName = Some (Hash ?fields)"
    by simp
  from deck init key mem apply_op_ok [OF ok1, of "Upsert userName 0"] show ?thesis
    by blast
qed

text \<open>
  C5 fails for the player name \<open>leaderboard\<close>, which is also the key of the sorted set. On a
  store where that key is free, the initialisation writes the player's hash under it; the
  store then refuses the \<open>ZAdd\<close> on the same key, and the handler does not look at that
  error. The player is not in the leaderboard, no sorted set exists, and the handler answers
  500 because the snapshot fails. On a store where the sorted set exists, the key is taken:
  the initialisation is skipped for this player, who was never seen, and the handler answers
  500 because the key does not hold a hash.
\<close>

theorem initialize_leaderboard_name:
  "\<exists>fields. initialize draws ''leaderboard'' Map.empty = Inr [''leaderboard'' \<mapsto> Hash fields] \<and>
     members [''leaderboard'' \<mapsto> Hash fields] ''leaderboard'' = None \<and>
     getLatestLeaderboard [''leaderboard'' \<mapsto> Hash fields] = Inl WRONGTYPE \<and>
     gameHandler draws ''leaderboard'' Map.empty =
       ([''leaderboard'' \<mapsto> Hash fields], HttpError ''Failed to retrieve latest leaderboard'' 500) \<and>
     gameHandler draws ''leaderboard'' [''leaderboard'' \<mapsto> ZSet [(''al'', 5)]] =
       ([''leaderboard'' \<mapsto> ZSet [(''al'', 5)]], HttpError ''Failed to retrieve user data'' 500)"
proof -
  from initialize_new [of Map.empty "''leaderboard''" draws]
  obtain fields where init: "initialize draws ''leaderboard'' Map.empty =
      Inr (ignore_error [''leaderboard'' \<mapsto> Hash fields]
             (ZAdd [''leaderboard'' \<mapsto> Hash fields] ''leaderboard'' 0 ''leaderboard''))"
    by auto
  have "ignore_error [''leaderboard'' \<mapsto> Hash fields]
          (ZAdd [''leaderboard'' \<mapsto> Hash fields] ''leaderboard'' 0 ''leaderboard'') =
        [''leaderboard'' \<mapsto> Hash fields]"
    by (rule ZAdd_on_hash [of _ _ fields]) simp
  with init have init': "initialize draws ''leaderboard'' Map.empty = Inr [''leaderboard'' \<mapsto> Hash fields]"
    by simp
  have snap: "getLatestLeaderboard [''leaderboard'' \<mapsto> Hash fields] = Inl WRONGTYPE"
    by (rule getLatestLeaderboard_on_hash [of _ fields]) simp
  have "gameHandler draws ''leaderboard'' Map.empty =
       ([''leaderboard'' \<mapsto> Hash fields], HttpError ''Failed to retrieve latest leaderboard'' 500)"
    by (simp add: gameHandler_def init' snap HGetAll_def)
  moreover have "gameHandler draws ''leaderboard'' [''leaderboard'' \<mapsto> ZSet [(''al'', 5)]] =
       ([''leaderboard'' \<mapsto> ZSet [(''al'', 5)]], HttpError ''Failed to retrieve user data'' 500)"
    by (simp add: gameHandler_def initialize_existing HGetAll_def)
  ultimately show ?thesis
    using init' snap by (auto simp: members_def)
qed

section \<open>Properties of DELETE /game followed by GET /game\<close>

lemma removed_member_not_listed:
  assumes "getLatestLeaderboard (ignore_error db (ZRem db ''leaderboard'' userName)) = Inr lb"
  shows "userName \<notin> set (map UserName lb)"
proof (cases "db ''leaderboard''")
  case None
  with assms show ?thesis
    by (simp add: ZRem_def ignore_error_def snapshot_ranked)
next
  case (Some v)
  show ?thesis
  proof (cases v)
    case (Hash h)
    with Some assms show ?thesis
      by (simp add: ZRem_on_hash getLatestLeaderboard_on_hash)
  next
    case (ZSet z)
    have names: "set (map UserName (map entry_of (ranked (AList.delete userName z)))) =
        fst ` set (AList.delete userName z)"
      by (simp add: entry_of_def case_prod_unfold set_ranked image_image)
    have gone: "userName \<notin> fst ` set (AList.delete userName z)"
      by (rule delete_notin_dom)
    show ?thesis
    proof (cases "AList.delete userName z = []")
      case True
      with Some ZSet assms show ?thesis
        by (simp add: ZRem_def ignore_error_def snapshot_ranked)
    next
      case False
      with Some ZSet assms have "lb = map entry_of (ranked (AList.delete userName z))"
        by (simp add: ZRem_def ignore_error_def snapshot_ranked)
      with names gone show ?thesis
        by simp
    qed
  qed
qed

text \<open>
  C6. When \<open>resetGame\<close> has answered with the leaderboard (it did not return early with an
  error), a GET /game for the player that was reset leaves the store as it is and answers
  with score 0, no cards, \<open>hasDefuseCard\<close> false and no active card, and with a leaderboard
  that has no entry for the player; that leaderboard is the one the reset answered with.
\<close>

theorem reset_then_read:
  assumes dec: "Decode_map_string body = Some requestBody"
    and ok: "resetGame body db = (db', ResetResponse leaderboardJSON)"
  shows "\<exists>lb. gameHandler draws (field requestBody ''userName'') db' =
             (db', GameResponse \<lparr>Score = 0, GameCards = [], HasDefuseCard = False, ActiveCard = None\<rparr> lb) \<and>
           field requestBody ''userName'' \<notin> set (map UserName lb) \<and>
           leaderboardJSON = marshal_leaderboard lb"
proof -
  let ?u = "field requestBody ''userName''"
  let ?fvs = "[(''gameCards'', ''[]''), (''hasDefuseCard'', ''false''), (''activeCard'', []),
               (''score'', FormatInt 0)]"
  from dec ok have name: "?u \<noteq> []"
    by (auto simp: resetGame_def Let_def)
  with dec ok obtain db1 where set: "HMSet db ?u ?fvs = Inr db1"
    by (cases "HMSet db ?u ?fvs") (simp_all add: resetGame_def Let_def)
  let ?db2 = "ignore_error db1 (ZRem db1 ''leaderboard'' ?u)"
  from dec ok name set obtain lb where db': "db' = ?db2"
    and snap: "getLatestLeaderboard ?db2 = Inr lb"
    and js: "leaderboardJSON = marshal_leaderboard lb"
    by (cases "getLatestLeaderboard ?db2") (simp_all add: resetGame_def Let_def)
  from HMSet_result [OF set] obtain h where db1: "db1 = db(?u \<mapsto> Hash (set_fields ?fvs h))"
    by blast
  have other: "?u \<noteq> ''leaderboard''"
  proof
    assume "?u = ''leaderboard''"
    with db1 have hash: "db1 ''leaderboard'' = Some (Hash (set_fields ?fvs h))"
      by simp
    then have "?db2 = db1"
      by (rule ZRem_on_hash)
    with hash snap getLatestLeaderboard_on_hash [of db1] show False
      by simp
  qed
  then have "?db2 ?u = db1 ?u"
    by (simp add: ZRem_other_key)
  with db1 have key: "?db2 ?u = Some (Hash (set_fields ?fvs h))"
    by simp
  then have init: "initialize draws ?u ?db2 = Inr ?db2"
    by (intro initialize_existing) simp
  have fields: "decode_fields (set_fields ?fvs h) =
      \<lparr>Score = 0, GameCards = [], HasDefuseCard = False, ActiveCard = None\<rparr>"
    by (simp add: decode_fields_def set_fields_def field_def FormatInt_0 Atoi_0
          Unmarshal_Cards_empty ParseBool_false)
  have "gameHandler draws ?u ?db2 =
      (?db2, GameResponse \<lparr>Score = 0, GameCards = [], HasDefuseCard = False, ActiveCard = None\<rparr> lb)"
    by (simp add: gameHandler_def init HGetAll_def key snap fields)
  with db' js removed_member_not_listed [OF snap] show ?thesis
    by blast
qed

theorem reset_then_read_witness:
  \<open>\<exists>db' leaderboardJSON lb.
     resetGame ''{"userName":"bob"}''
       [''bob'' \<mapsto> Hash [''score'' \<mapsto> ''3''], ''leaderboard'' \<mapsto> ZSet [(''bob'', 3), (''al'', 5)]]
       = (db', ResetResponse leaderboardJSON) \<and>
     gameHandler (\<lambda>k. 0) ''bob'' db' =
       (db', GameResponse \<lparr>Score = 0, GameCards = [], HasDefuseCard = False, ActiveCard = None\<rparr> lb) \<and>
     ''bob'' \<notin> set (map UserName lb)\<close>
proof -
  let ?db = "[''bob'' \<mapsto> Hash [''score'' \<mapsto> ''3''], ''leaderboard'' \<mapsto> ZSet [(''bob'', 3), (''al'', 5)]]"
  have \<open>first_value ''{"userName":"bob"}'' = Some (JObject [(''userName'', JString ''bob'')], [])\<close>
    by code_simp
  then have dec: \<open>Decode_map_string ''{"userName":"bob"}'' = Some [''userName'' \<mapsto> ''bob'']\<close>
    by (simp add: Decode_map_string_def)
  have name: "field [''userName'' \<mapsto> ''bob''] ''userName'' = ''bob''"
    by (simp add: field_def)
  have \<open>\<exists>db' leaderboardJSON. resetGame ''{"userName":"bob"}'' ?db = (db', ResetResponse leaderboardJSON)\<close>
    by (simp add: resetGame_def dec name HMSet_def ZRem_def ignore_error_def
          getLatestLeaderboard_def ZRevRangeWithScores_def)
  then obtain db' leaderboardJSON
    where ok: \<open>resetGame ''{"userName":"bob"}'' ?db = (db', ResetResponse leaderboardJSON)\<close>
    by blast
  from reset_then_read [OF dec ok, of "\<lambda>k. 0"] name ok show ?thesis
    by auto
qed

section \<open>Properties of the decoding of stored fields\<close>

lemma parseUint_loop_error:
  "parseUint_loop s n = (v, Some e) \<Longrightarrow> (e = ErrSyntax \<and> v = 0) \<or> (e = ErrRange \<and> v = 2 ^ 64 - 1)"
  by (induction s n rule: parseUint_loop.induct) (auto split: if_splits)

lemma ParseUint_error:
  "ParseUint s = (v, Some e) \<Longrightarrow> (e = ErrSyntax \<and> v = 0) \<or> (e = ErrRange \<and> v = 2 ^ 64 - 1)"
  by (auto simp: ParseUint_def split: if_splits dest: parseUint_loop_error)

lemma ParseInt_error:
  "(snd (ParseInt s) = Some ErrSyntax \<longrightarrow> fst (ParseInt s) = 0) \<and>
   (snd (ParseInt s) = Some ErrRange \<longrightarrow> fst (ParseInt s) = 2 ^ 63 - 1 \<or> fst (ParseInt s) = - (2 ^ 63))"
proof (cases "s = []")
  case True
  then show ?thesis by (simp add: ParseInt_def)
next
  case False
  let ?s = "if hd s = CHR ''+'' \<or> hd s = CHR ''-'' then tl s else s"
  obtain un err where u: "ParseUint ?s = (un, err)"
    by (cases "ParseUint ?s")
  with False show ?thesis
    by (auto simp: ParseInt_def Let_def split: if_splits)
qed

lemma Atoi_error:
  "(snd (Atoi s) = Some ErrSyntax \<longrightarrow> fst (Atoi s) = 0) \<and>
   (snd (Atoi s) = Some ErrRange \<longrightarrow> fst (Atoi s) = 2 ^ 63 - 1 \<or> fst (Atoi s) = - (2 ^ 63))"
proof (cases "0 < length s \<and> length s < 19")
  case False
  then have "Atoi s = ParseInt s"
    by (auto simp: Atoi_def)
  with ParseInt_error [of s] show ?thesis
    by simp
next
  case True
  then show ?thesis
    by (auto simp: Atoi_def Let_def split: option.splits if_splits)
qed

lemma ParseBool_error: "snd (ParseBool s) \<noteq> None \<Longrightarrow> fst (ParseBool s) = False"
  by (simp add: ParseBool_def split: if_splits)

lemma Unmarshal_Cards_cases:
  "(whole_value text = None \<longrightarrow> Unmarshal_Cards text = ([], True)) \<and>
   (\<forall>v. whole_value text = Some v \<longrightarrow> (\<forall>vs. v \<noteq> JArray vs) \<longrightarrow> fst (Unmarshal_Cards text) = []) \<and>
   (\<forall>vs. whole_value text = Some (JArray vs) \<longrightarrow>
      fst (Unmarshal_Cards text) = map (fst \<circ> decode_Card) vs)"
proof (intro conjI allI impI)
  assume "whole_value text = None"
  then show "Unmarshal_Cards text = ([], True)"
    by (simp add: Unmarshal_Cards_def)
next
  fix v assume "whole_value text = Some v" "\<forall>vs. v \<noteq> JArray vs"
  then show "fst (Unmarshal_Cards text) = []"
    by (cases v) (simp_all add: Unmarshal_Cards_def)
next
  fix vs assume "whole_value text = Some (JArray vs)"
  then show "fst (Unmarshal_Cards text) = map (fst \<circ> decode_Card) vs"
    by (simp add: Unmarshal_Cards_def)
qed

lemma ParseInt_range_error:
  "snd (ParseInt s) = Some ErrRange \<Longrightarrow>
     fst (ParseInt s) = (if hd s = CHR ''-'' then - (2 ^ 63) else 2 ^ 63 - 1)"
proof (cases "s = []")
  case True
  assume "snd (ParseInt s) = Some ErrRange"
  with True show ?thesis by (simp add: ParseInt_def)
next
  case False
  assume a: "snd (ParseInt s) = Some ErrRange"
  let ?s = "if hd s = CHR ''+'' \<or> hd s = CHR ''-'' then tl s else s"
  obtain un err where u: "ParseUint ?s = (un, err)"
    by (cases "ParseUint ?s")
  with False a show ?thesis
    by (auto simp: ParseInt_def Let_def split: if_splits)
qed

lemma Atoi_range_error:
  "snd (Atoi s) = Some ErrRange \<Longrightarrow>
     fst (Atoi s) = (if hd s = CHR ''-'' then - (2 ^ 63) else 2 ^ 63 - 1)"
proof (cases "0 < length s \<and> length s < 19")
  case False
  assume a: "snd (Atoi s) = Some ErrRange"
  from False have "Atoi s = ParseInt s"
    by (auto simp: Atoi_def)
  with a ParseInt_range_error [of s] show ?thesis
    by simp
next
  case True
  assume "snd (Atoi s) = Some ErrRange"
  with True show ?thesis
    by (auto simp: Atoi_def Let_def split: option.splits if_splits)
qed

lemma fold_set_field:
  "fst (fold set_field kvs (crd, err)) =
     \<lparr>Name = (if string_values ''name'' kvs = [] then Name crd else last (string_values ''name'' kvs)),
      Type = (if string_values ''type'' kvs = [] then Type crd else last (string_values ''type'' kvs))\<rparr>"
proof (induction kvs arbitrary: crd err)
  case Nil
  show ?case by simp
next
  case (Cons kv kvs)
  obtain k v where kv: "kv = (k, v)"
    by (cases kv)
  show ?case
  proof (cases "\<exists>s. v = JString s")
    case True
    then obtain s where v: "v = JString s"
      by blast
    show ?thesis
      unfolding kv v by (simp add: Cons.IH)
  next
    case False
    then have same: "string_values name ((k, v) # kvs) = string_values name kvs" for name
      by (cases v) simp_all
    from False have "set_field (k, v) (crd, err) = (crd, err) \<or> set_field (k, v) (crd, err) = (crd, True)"
      by (cases v) simp_all
    then show ?thesis
      unfolding kv by (auto simp: same Cons.IH)
  qed
qed

lemma decode_Card_object:
  "fst (decode_Card (JObject kvs)) = \<lparr>Name = last_string ''name'' kvs, Type = last_string ''type'' kvs\<rparr>"
  by (simp add: fold_set_field last_string_def zero_Card_def)

lemma decode_Card_other: "\<forall>kvs. v \<noteq> JObject kvs \<Longrightarrow> fst (decode_Card v) = \<lparr>Name = [], Type = []\<rparr>"
  by (cases v) (simp_all add: zero_Card_def)

lemma decode_Card_element:
  "fst (decode_Card v) =
     (case v of
        JObject kvs \<Rightarrow> \<lparr>Name = last_string ''name'' kvs, Type = last_string ''type'' kvs\<rparr>
      | _ \<Rightarrow> \<lparr>Name = [], Type = []\<rparr>)"
  by (cases v) (simp_all add: decode_Card_object zero_Card_def del: decode_Card.simps(1))

text \<open>
  C8 (as amended). The decoding of the stored fields is a total function, so it never fails,
  and it drops every error. A score for which \<open>strconv.Atoi\<close> reports a syntax error decodes
  to 0; a score for which it reports a range error decodes to the bound of \<open>int\<close> on the side
  of its sign: the smallest \<open>int\<close> when the text starts with a minus, the largest otherwise.
  A \<open>hasDefuseCard\<close> that fails boolean parsing decodes to false. A \<open>gameCards\<close> text that is
  not one JSON value, or whose value is not an array, decodes to the empty sequence. An array
  decodes to one card per element: an element that is not an object is the card with empty
  name and type, and an object gives to each of the two fields the last string that it holds
  under the field's name (up to the case of letters), and the empty string when it holds
  none, so a member of another type sets nothing. The active card is present exactly when
  the stored \<open>activeCard\<close> is non-empty, and then has that name and an empty type.
\<close>

theorem decode_fields_defaults:
  "(snd (Atoi (field m ''score'')) = Some ErrSyntax \<longrightarrow> Score (decode_fields m) = 0) \<and>
   (snd (Atoi (field m ''score'')) = Some ErrRange \<longrightarrow>
      Score (decode_fields m) = (if hd (field m ''score'') = CHR ''-'' then - (2 ^ 63) else 2 ^ 63 - 1)) \<and>
   (snd (ParseBool (field m ''hasDefuseCard'')) \<noteq> None \<longrightarrow> HasDefuseCard (decode_fields m) = False) \<and>
   (whole_value (field m ''gameCards'') = None \<longrightarrow> GameCards (decode_fields m) = []) \<and>
   (\<forall>v. whole_value (field m ''gameCards'') = Some v \<longrightarrow> (\<forall>vs. v \<noteq> JArray vs) \<longrightarrow>
      GameCards (decode_fields m) = []) \<and>
   (\<forall>vs. whole_value (field m ''gameCards'') = Some (JArray vs) \<longrightarrow>
      length (GameCards (decode_fields m)) = length vs \<and>
      (\<forall>i < length vs.
         GameCards (decode_fields m) ! i =
           (case vs ! i of
              JObject kvs \<Rightarrow> \<lparr>Name = last_string ''name'' kvs, Type = last_string ''type'' kvs\<rparr>
            | _ \<Rightarrow> \<lparr>Name = [], Type = []\<rparr>))) \<and>
   ActiveCard (decode_fields m) =
     (if field m ''activeCard'' = [] then None else Some \<lparr>Name = field m ''activeCard'', Type = []\<rparr>)"
proof -
  have score: "Score (decode_fields m) = fst (Atoi (field m ''score''))"
    and cards: "GameCards (decode_fields m) = fst (Unmarshal_Cards (field m ''gameCards''))"
    and defuse: "HasDefuseCard (decode_fields m) = fst (ParseBool (field m ''hasDefuseCard''))"
    by (simp_all add: decode_fields_def)
  have active: "ActiveCard (decode_fields m) =
     (if field m ''activeCard'' = [] then None else Some \<lparr>Name = field m ''activeCard'', Type = []\<rparr>)"
    by (simp add: decode_fields_def field_def split: option.splits)
  have bad_syntax: "snd (Atoi (field m ''score'')) = Some ErrSyntax \<longrightarrow> Score (decode_fields m) = 0"
    using Atoi_error [of "field m ''score''"] unfolding score by simp
  have range: "snd (Atoi (field m ''score'')) = Some ErrRange \<longrightarrow>
      Score (decode_fields m) = (if hd (field m ''score'') = CHR ''-'' then - (2 ^ 63) else 2 ^ 63 - 1)"
    using Atoi_range_error [of "field m ''score''"] unfolding score by simp
  have bool: "snd (ParseBool (field m ''hasDefuseCard'')) \<noteq> None \<longrightarrow> HasDefuseCard (decode_fields m) = False"
    using ParseBool_error [of "field m ''hasDefuseCard''"] unfolding defuse by simp
  have none: "whole_value (field m ''gameCards'') = None \<longrightarrow> GameCards (decode_fields m) = []"
    and other: "\<forall>v. whole_value (field m ''gameCards'') = Some v \<longrightarrow> (\<forall>vs. v \<noteq> JArray vs) \<longrightarrow>
      GameCards (decode_fields m) = []"
    using Unmarshal_Cards_cases [of "field m ''gameCards''"] unfolding cards by simp_all
  have array: "\<forall>vs. whole_value (field m ''gameCards'') = Some (JArray vs) \<longrightarrow>
      length (GameCards (decode_fields m)) = length vs \<and>
      (\<forall>i < length vs.
         GameCards (decode_fields m) ! i =
           (case vs ! i of
              JObject kvs \<Rightarrow> \<lparr>Name = last_string ''name'' kvs, Type = last_string ''type'' kvs\<rparr>
            | _ \<Rightarrow> \<lparr>Name = [], Type = []\<rparr>))"
  proof (intro allI impI)
    fix vs assume "whole_value (field m ''gameCards'') = Some (JArray vs)"
    then have "GameCards (decode_fields m) = map (fst \<circ> decode_Card) vs"
      unfolding cards by (simp add: Unmarshal_Cards_def)
    then show "length (GameCards (decode_fields m)) = length vs \<and>
      (\<forall>i < length vs.
         GameCards (decode_fields m) ! i =
           (case vs ! i of
              JObject kvs \<Rightarrow> \<lparr>Name = last_string ''name'' kvs, Type = last_string ''type'' kvs\<rparr>
            | _ \<Rightarrow> \<lparr>Name = [], Type = []\<rparr>))"
      by (simp add: decode_Card_element del: decode_Card.simps)
  qed
  from bad_syntax range bool none other array active show ?thesis
    by (intro conjI)
qed

theorem decode_fields_defaults_witness:
  \<open>(Score (decode_fields [''score'' \<mapsto> ''7x'', ''gameCards'' \<mapsto> ''[{"name":'', ''hasDefuseCard'' \<mapsto> ''yes'',
      ''activeCard'' \<mapsto> ''Cat'']) = 0 \<and>
    HasDefuseCard (decode_fields [''score'' \<mapsto> ''7x'', ''gameCards'' \<mapsto> ''[{"name":'', ''hasDefuseCard'' \<mapsto> ''yes'',
      ''activeCard'' \<mapsto> ''Cat'']) = False \<and>
    GameCards (decode_fields [''score'' \<mapsto> ''7x'', ''gameCards'' \<mapsto> ''[{"name":'', ''hasDefuseCard'' \<mapsto> ''yes'',
      ''activeCard'' \<mapsto> ''Cat'']) = [] \<and>
    ActiveCard (decode_fields [''score'' \<mapsto> ''7x'', ''gameCards'' \<mapsto> ''[{"name":'', ''hasDefuseCard'' \<mapsto> ''yes'',
      ''activeCard'' \<mapsto> ''Cat'']) = Some \<lparr>Name = ''Cat'', Type = []\<rparr>) \<and>
   (Score (decode_fields [''score'' \<mapsto> ''123456789012345678901x'',
      ''gameCards'' \<mapsto> ''[{"name":"A","type":5},"Cat",{"Name":"B","name":null}]'']) = 9223372036854775807 \<and>
    length (GameCards (decode_fields [''score'' \<mapsto> ''123456789012345678901x'',
      ''gameCards'' \<mapsto> ''[{"name":"A","type":5},"Cat",{"Name":"B","name":null}]''])) = 3 \<and>
    GameCards (decode_fields [''score'' \<mapsto> ''123456789012345678901x'',
      ''gameCards'' \<mapsto> ''[{"name":"A","type":5},"Cat",{"Name":"B","name":null}]'']) ! 0 = \<lparr>Name = ''A'', Type = []\<rparr> \<and>
    GameCards (decode_fields [''score'' \<mapsto> ''123456789012345678901x'',
      ''gameCards'' \<mapsto> ''[{"name":"A","type":5},"Cat",{"Name":"B","name":null}]'']) ! 1 = \<lparr>Name = [], Type = []\<rparr> \<and>
    GameCards (decode_fields [''score'' \<mapsto> ''123456789012345678901x'',
      ''gameCards'' \<mapsto> ''[{"name":"A","type":5},"Cat",{"Name":"B","name":null}]'']) ! 2 = \<lparr>Name = ''B'', Type = []\<rparr> \<and>
    ActiveCard (decode_fields [''score'' \<mapsto> ''123456789012345678901x'',
      ''gameCards'' \<mapsto> ''[{"name":"A","type":5},"Cat",{"Name":"B","name":null}]'']) = None) \<and>
   Score (decode_fields [''score'' \<mapsto> ''-9223372036854775809'']) = - 9223372036854775808\<close>
proof -
  let ?m1 = \<open>[''score'' \<mapsto> ''7x'', ''gameCards'' \<mapsto> ''[{"name":'', ''hasDefuseCard'' \<mapsto> ''yes'',
      ''activeCard'' \<mapsto> ''Cat'']\<close>
  let ?m2 = \<open>[''score'' \<mapsto> ''123456789012345678901x'',
      ''gameCards'' \<mapsto> ''[{"name":"A","type":5},"Cat",{"Name":"B","name":null}]'']\<close>
  let ?m3 = \<open>[''score'' \<mapsto> ''-9223372036854775809'']\<close>
  let ?vs = "[JObject [(''name'', JString ''A''), (''type'', JNumber ''5'')], JString ''Cat'',
      JObject [(''Name'', JString ''B''), (''name'', JNull)]]"
  have "snd (Atoi (field ?m1 ''score'')) = Some ErrSyntax"
    by (simp add: field_def Atoi_def is_digit_def digit_val_def)
  moreover have "snd (ParseBool (field ?m1 ''hasDefuseCard'')) \<noteq> None"
    by (simp add: field_def ParseBool_def)
  moreover have \<open>whole_value ''[{"name":'' = None\<close>
    by code_simp
  then have "whole_value (field ?m1 ''gameCards'') = None"
    by (simp add: field_def)
  moreover have "field ?m1 ''activeCard'' = ''Cat''"
    by (simp add: field_def)
  ultimately have first:
    "Score (decode_fields ?m1) = 0 \<and> HasDefuseCard (decode_fields ?m1) = False \<and>
     GameCards (decode_fields ?m1) = [] \<and>
     ActiveCard (decode_fields ?m1) = Some \<lparr>Name = ''Cat'', Type = []\<rparr>"
    using decode_fields_defaults [of ?m1] by simp
  have range2: "snd (Atoi (field ?m2 ''score'')) = Some ErrRange"
    and sign2: "hd (field ?m2 ''score'') \<noteq> CHR ''-''"
    and active2: "field ?m2 ''activeCard'' = []"
    by (simp_all add: field_def Atoi_def ParseInt_def ParseUint_def is_digit_def digit_val_def)
  have \<open>whole_value ''[{"name":"A","type":5},"Cat",{"Name":"B","name":null}]'' = Some (JArray ?vs)\<close>
    by code_simp
  then have array2: "whole_value (field ?m2 ''gameCards'') = Some (JArray ?vs)"
    by (simp add: field_def)
  from decode_fields_defaults [of ?m2] range2 sign2 active2
  have score2: "Score (decode_fields ?m2) = 9223372036854775807"
    and none2: "ActiveCard (decode_fields ?m2) = None"
    by simp_all
  from decode_fields_defaults [of ?m2] array2
  have len2: "length (GameCards (decode_fields ?m2)) = length ?vs"
    and elems2: "\<forall>i < length ?vs. GameCards (decode_fields ?m2) ! i =
           (case ?vs ! i of
              JObject kvs \<Rightarrow> \<lparr>Name = last_string ''name'' kvs, Type = last_string ''type'' kvs\<rparr>
            | _ \<Rightarrow> \<lparr>Name = [], Type = []\<rparr>)"
    by blast+
  have fields: "last_string ''name'' [(''name'', JString ''A''), (''type'', JNumber ''5'')] = ''A''"
    "last_string ''type'' [(''name'', JString ''A''), (''type'', JNumber ''5'')] = []"
    "last_string ''name'' [(''Name'', JString ''B''), (''name'', JNull)] = ''B''"
    "last_string ''type'' [(''Name'', JString ''B''), (''name'', JNull)] = []"
    by code_simp+
  have "GameCards (decode_fields ?m2) ! 0 = \<lparr>Name = ''A'', Type = []\<rparr>"
    using elems2 [rule_format, of 0] by (simp add: fields)
  moreover have "GameCards (decode_fields ?m2) ! 1 = \<lparr>Name = [], Type = []\<rparr>"
    using elems2 [rule_format, of 1] by simp
  moreover have "GameCards (decode_fields ?m2) ! 2 = \<lparr>Name = ''B'', Type = []\<rparr>"
    using elems2 [rule_format, of 2] by (simp add: fields)
  ultimately have second:
    "Score (decode_fields ?m2) = 9223372036854775807 \<and>
     length (GameCards (decode_fields ?m2)) = 3 \<and>
     GameCards (decode_fields ?m2) ! 0 = \<lparr>Name = ''A'', Type = []\<rparr> \<and>
     GameCards (decode_fields ?m2) ! 1 = \<lparr>Name = [], Type = []\<rparr> \<and>
     GameCards (decode_fields ?m2) ! 2 = \<lparr>Name = ''B'', Type = []\<rparr> \<and>
     ActiveCard (decode_fields ?m2) = None"
    using score2 none2 len2 by simp
  have "snd (Atoi (field ?m3 ''score'')) = Some ErrRange" and "hd (field ?m3 ''score'') = CHR ''-''"
    by (simp_all add: field_def Atoi_def ParseInt_def ParseUint_def is_digit_def digit_val_def)
  with decode_fields_defaults [of ?m3]
  have third: "Score (decode_fields ?m3) = - 9223372036854775808"
    by simp
  from first second third show ?thesis
    by (intro conjI) simp_all
qed

text \<open>
  C8 as stated fails twice. The score \<open>9223372036854775808\<close> fails integer parsing (it is out
  of range) and decodes to \<open>9223372036854775807\<close>, not to 0. The cards \<open>["Cat"]\<close> fail to
  decode (a string is not a card) and yield a sequence of one card, not the empty sequence.
\<close>

theorem decode_fields_counterexample:
  \<open>snd (Atoi ''9223372036854775808'') = Some ErrRange \<and>
   Score (decode_fields [''score'' \<mapsto> ''9223372036854775808'']) = 9223372036854775807 \<and>
   snd (Unmarshal_Cards ''["Cat"]'') = True \<and>
   GameCards (decode_fields [''gameCards'' \<mapsto> ''["Cat"]'']) = [\<lparr>Name = [], Type = []\<rparr>]\<close>
proof -
  have atoi: "Atoi ''9223372036854775808'' = (9223372036854775807, Some ErrRange)"
    by (simp add: Atoi_def ParseInt_def ParseUint_def is_digit_def digit_val_def)
  have \<open>whole_value ''["Cat"]'' = Some (JArray [JString ''Cat''])\<close>
    by code_simp
  then have cards: \<open>Unmarshal_Cards ''["Cat"]'' = ([\<lparr>Name = [], Type = []\<rparr>], True)\<close>
    by (simp add: Unmarshal_Cards_def zero_Card_def)
  show ?thesis
    by (simp add: decode_fields_def field_def atoi cards)
qed

section \<open>Decimal integers: formatting and parsing\<close>














section \<open>Strings: marshalling and scanning\<close>

lemma utf8_len_le: "utf8_len s \<le> length s"
  by (cases s) (auto simp: utf8_len.simps split: list.splits)

lemma utf8_len_ascii: "byte_in c 0x00 0x7F \<Longrightarrow> utf8_len (c # s) = 1"
  by (simp add: utf8_len.simps)

lemma utf8_len_cases:
  assumes "utf8_len (p0 # p) = n" and "n \<noteq> 0" and "\<not> byte_in p0 0x00 0x7F"
  obtains
    (two) b1 r where "n = 2" "p = b1 # r" "byte_in p0 0xC2 0xDF" "byte_in b1 0x80 0xBF"
  | (three) b1 b2 r where "n = 3" "p = b1 # b2 # r" "\<not> byte_in p0 0xC2 0xDF"
      "byte_in p0 0xE0 0xEF"
      "byte_in b1 (if p0 = CHR 0xE0 then 0xA0 else 0x80) (if p0 = CHR 0xED then 0x9F else 0xBF)"
      "byte_in b2 0x80 0xBF"
  | (four) b1 b2 b3 r where "n = 4" "p = b1 # b2 # b3 # r" "\<not> byte_in p0 0xC2 0xDF"
      "\<not> byte_in p0 0xE0 0xEF" "byte_in p0 0xF0 0xF4"
      "byte_in b1 (if p0 = CHR 0xF0 then 0x90 else 0x80) (if p0 = CHR 0xF4 then 0x8F else 0xBF)"
      "byte_in b2 0x80 0xBF" "byte_in b3 0x80 0xBF"
proof (cases "byte_in p0 0xC2 0xDF")
  case True
  with assms obtain b1 r where "p = b1 # r" "byte_in b1 0x80 0xBF" "n = 2"
    by (cases p) (auto simp: utf8_len.simps split: if_splits)
  with True show ?thesis
    by (intro two)
next
  case not2: False
  show ?thesis
  proof (cases "byte_in p0 0xE0 0xEF")
    case True
    with assms not2 obtain b1 p' where p: "p = b1 # p'"
      by (cases p) (auto simp: utf8_len.simps)
    with assms not2 True obtain b2 r where p': "p' = b2 # r"
      by (cases p') (auto simp: utf8_len.simps)
    from assms not2 True p p'
    have "n = 3 \<and>
        byte_in b1 (if p0 = CHR 0xE0 then 0xA0 else 0x80) (if p0 = CHR 0xED then 0x9F else 0xBF) \<and>
        byte_in b2 0x80 0xBF"
      by (simp add: utf8_len.simps split: if_splits)
    then have "n = 3"
      and "byte_in b1 (if p0 = CHR 0xE0 then 0xA0 else 0x80) (if p0 = CHR 0xED then 0x9F else 0xBF)"
      and "byte_in b2 0x80 0xBF"
      by blast+
    moreover have "p = b1 # b2 # r"
      using p p' by simp
    ultimately show ?thesis
      using not2 True by (intro three)
  next
    case not3: False
    from assms not2 not3 have f: "byte_in p0 0xF0 0xF4"
      by (simp add: utf8_len.simps split: if_splits)
    with assms not2 not3 obtain b1 p' where p: "p = b1 # p'"
      by (cases p) (auto simp: utf8_len.simps)
    with assms not2 not3 f obtain b2 p'' where p': "p' = b2 # p''"
      by (cases p') (auto simp: utf8_len.simps)
    with assms not2 not3 f p obtain b3 r where p'': "p'' = b3 # r"
      by (cases p'') (auto simp: utf8_len.simps)
    from assms not2 not3 f p p' p''
    have "n = 4 \<and>
        byte_in b1 (if p0 = CHR 0xF0 then 0x90 else 0x80) (if p0 = CHR 0xF4 then 0x8F else 0xBF) \<and>
        byte_in b2 0x80 0xBF \<and> byte_in b3 0x80 0xBF"
      by (simp add: utf8_len.simps split: if_splits)
    then have "n = 4"
      and "byte_in b1 (if p0 = CHR 0xF0 then 0x90 else 0x80) (if p0 = CHR 0xF4 then 0x8F else 0xBF)"
      and "byte_in b2 0x80 0xBF" and "byte_in b3 0x80 0xBF"
      by blast+
    moreover have "p = b1 # b2 # b3 # r"
      using p p' p'' by simp
    ultimately show ?thesis
      using not2 not3 f by (intro four)
  qed
qed

lemma utf8_len_prefix:
  assumes "utf8_len (p0 # p) = n" and "n \<noteq> 0" and "\<not> byte_in p0 0x00 0x7F"
  shows "utf8_len (take n (p0 # p) @ t) = n"
  using assms
proof (cases rule: utf8_len_cases)
  case (two b1 r)
  with assms(3) show ?thesis
    by (simp add: utf8_len.simps)
next
  case (three b1 b2 r)
  with assms(3) show ?thesis
    by (simp add: utf8_len.simps)
next
  case (four b1 b2 b3 r)
  with assms(3) show ?thesis
    by (simp add: utf8_len.simps)
qed

lemma high_byte: "byte_in b lo hi \<Longrightarrow> 0x80 \<le> lo \<Longrightarrow> \<not> byte_in b 0x00 0x7F"
  by (simp add: byte_in_def)

lemma utf8_len_high:
  assumes "utf8_len (p0 # p) = n" and "n \<noteq> 0" and "\<not> byte_in p0 0x00 0x7F"
  shows "\<forall>b \<in> set (take n (p0 # p)). \<not> byte_in b 0x00 0x7F"
  using assms
proof (cases rule: utf8_len_cases)
  case (two b1 r)
  with assms(3) show ?thesis
    by (auto dest: high_byte)
next
  case (three b1 b2 r)
  have "\<not> byte_in b1 0x00 0x7F"
    using three(5) by (rule high_byte) simp
  moreover have "\<not> byte_in b2 0x00 0x7F"
    using three(6) by (rule high_byte) simp
  ultimately show ?thesis
    using assms(3) three(1,2) by simp
next
  case (four b1 b2 b3 r)
  have "\<not> byte_in b1 0x00 0x7F"
    using four(6) by (rule high_byte) simp
  moreover have "\<not> byte_in b2 0x00 0x7F"
    using four(7) by (rule high_byte) simp
  moreover have "\<not> byte_in b3 0x00 0x7F"
    using four(8) by (rule high_byte) simp
  ultimately show ?thesis
    using assms(3) four(1,2) by simp
qed

lemma hex_digit_props: "d < 16 \<Longrightarrow> is_hex (hex_digit d) \<and> hex_val (hex_digit d) = d"
proof -
  assume "d < 16"
  then have "d = 0 \<or> d = 1 \<or> d = 2 \<or> d = 3 \<or> d = 4 \<or> d = 5 \<or> d = 6 \<or> d = 7 \<or> d = 8 \<or> d = 9
      \<or> d = 10 \<or> d = 11 \<or> d = 12 \<or> d = 13 \<or> d = 14 \<or> d = 15"
    by arith
  then show ?thesis
    unfolding is_hex_def hex_val_def hex_digit_def is_digit_def
    by (elim disjE) (simp_all add: less_eq_char_def)
qed

lemma high_byte_plain:
  "\<not> byte_in b 0x00 0x7F \<Longrightarrow> b \<noteq> CHR 0x22 \<and> b \<noteq> CHR 0x5C \<and> \<not> byte_in b 0x00 0x1F"
  by (auto simp: byte_in_def)

lemma scan_string_plain:
  "\<forall>b \<in> set bs. \<not> byte_in b 0x00 0x7F \<Longrightarrow>
     scan_string (bs @ rest) acc = scan_string rest (rev bs @ acc)"
proof (induction bs arbitrary: acc)
  case Nil
  show ?case by simp
next
  case (Cons b bs)
  then have "b \<noteq> CHR 0x22 \<and> b \<noteq> CHR 0x5C \<and> \<not> byte_in b 0x00 0x1F"
    by (intro high_byte_plain) simp
  with Cons show ?case
    by simp
qed

lemma scan_string_escaped:
  assumes "byte_in c 0x00 0x7F" and "\<not> html_safe c"
  shows "scan_string (escaped c @ rest) acc = scan_string rest (rev (escaped c) @ acc)"
proof -
  have "of_char c div 16 < (16 :: nat)" "of_char c mod 16 < (16 :: nat)"
    using assms(1) by (simp_all add: byte_in_def)
  then have hex: "is_hex (hex_digit (of_char c div 16))" "is_hex (hex_digit (of_char c mod 16))"
    by (simp_all add: hex_digit_props)
  have zero: "is_hex CHR ''0''"
    by (simp add: is_hex_def is_digit_def)
  show ?thesis
    using hex zero by (simp add: escaped_def simple_escape_def)
qed

lemma is_hex_literals:
  "is_hex CHR ''0''" "is_hex CHR ''2''" "is_hex CHR ''8''" "is_hex CHR ''9''"
  "is_hex CHR ''f''" "is_hex CHR ''d''"
  by (simp_all add: is_hex_def is_digit_def less_eq_char_def)

lemma scan_string_u:
  "is_hex h1 \<Longrightarrow> is_hex h2 \<Longrightarrow> is_hex h3 \<Longrightarrow> is_hex h4 \<Longrightarrow>
     scan_string (CHR 0x5C # CHR ''u'' # h1 # h2 # h3 # h4 # rest) acc =
       scan_string rest (h4 # h3 # h2 # h1 # CHR ''u'' # CHR 0x5C # acc)"
  by (simp add: simple_escape_def)

text \<open>The equations of \<open>escape\<close>, one per branch.\<close>

lemma escape_ascii:
  "byte_in c 0x00 0x7F \<Longrightarrow> escape (c # s) = (if html_safe c then [c] else escaped c) @ escape s"
  by (subst escape.simps) (simp only: if_P)

lemma escape_invalid:
  "\<not> byte_in c 0x00 0x7F \<Longrightarrow> utf8_len (c # s) = 0 \<Longrightarrow>
     escape (c # s) = CHR 0x5C # ''ufffd'' @ escape s"
  by (subst escape.simps) (simp only: if_P if_not_P if_True if_False)

lemma escape_line_separator:
  "\<not> byte_in c 0x00 0x7F \<Longrightarrow> utf8_len (c # s) \<noteq> 0 \<Longrightarrow>
   take 3 (c # s) = [CHR 0xE2, CHR 0x80, CHR 0xA8] \<Longrightarrow>
     escape (c # s) = CHR 0x5C # ''u2028'' @ escape (drop 2 s)"
  by (subst escape.simps) (simp only: if_P if_not_P if_True if_False)

lemma escape_paragraph_separator:
  "\<not> byte_in c 0x00 0x7F \<Longrightarrow> utf8_len (c # s) \<noteq> 0 \<Longrightarrow>
   take 3 (c # s) \<noteq> [CHR 0xE2, CHR 0x80, CHR 0xA8] \<Longrightarrow>
   take 3 (c # s) = [CHR 0xE2, CHR 0x80, CHR 0xA9] \<Longrightarrow>
     escape (c # s) = CHR 0x5C # ''u2029'' @ escape (drop 2 s)"
  by (subst escape.simps) (simp only: if_P if_not_P if_True if_False)

lemma escape_raw:
  "\<not> byte_in c 0x00 0x7F \<Longrightarrow> utf8_len (c # s) \<noteq> 0 \<Longrightarrow>
   take 3 (c # s) \<noteq> [CHR 0xE2, CHR 0x80, CHR 0xA8] \<Longrightarrow>
   take 3 (c # s) \<noteq> [CHR 0xE2, CHR 0x80, CHR 0xA9] \<Longrightarrow>
     escape (c # s) = take (utf8_len (c # s)) (c # s) @ escape (drop (utf8_len (c # s)) (c # s))"
  by (subst escape.simps) (simp only: if_P if_not_P if_True if_False)

lemma scan_string_escape:
  "scan_string (escape s @ CHR 0x22 # rest) acc = Some (rev acc @ escape s, rest)"
proof (induction s arbitrary: acc rule: escape.induct)
  case 1
  show ?case by simp
next
  case (2 c s)
  show ?case
  proof (cases "byte_in c 0x00 0x7F")
    case ascii: True
    show ?thesis
    proof (cases "html_safe c")
      case True
      then have "c \<noteq> CHR 0x22" "c \<noteq> CHR 0x5C" "\<not> byte_in c 0x00 0x1F"
        by (auto simp: html_safe_def byte_in_def)
      with True "2.IH"(1) [OF ascii, of "c # acc"] show ?thesis
        by (simp add: escape_ascii [OF ascii] del: escape.simps)
    next
      case False
      with "2.IH"(1) [OF ascii, of "rev (escaped c) @ acc"] show ?thesis
        by (simp add: escape_ascii [OF ascii] scan_string_escaped [OF ascii False]
              del: escape.simps scan_string.simps)
    qed
  next
    case high: False
    show ?thesis
    proof (cases "utf8_len (c # s) = 0")
      case True
      from "2.IH"(2) [OF high True, of "rev (CHR 0x5C # ''ufffd'') @ acc"] show ?thesis
        by (simp add: escape_invalid [OF high True] is_hex_literals scan_string_u
              del: escape.simps scan_string.simps)
    next
      case len: False
      show ?thesis
      proof (cases "take 3 (c # s) = [CHR 0xE2, CHR 0x80, CHR 0xA8]")
        case True
        from "2.IH"(3) [OF high len True, of "rev (CHR 0x5C # ''u2028'') @ acc"] show ?thesis
          by (simp add: escape_line_separator [OF high len True] is_hex_literals scan_string_u
                del: escape.simps scan_string.simps)
      next
        case ls: False
        show ?thesis
        proof (cases "take 3 (c # s) = [CHR 0xE2, CHR 0x80, CHR 0xA9]")
          case True
          from "2.IH"(4) [OF high len ls True, of "rev (CHR 0x5C # ''u2029'') @ acc"] show ?thesis
            by (simp add: escape_paragraph_separator [OF high len ls True] is_hex_literals
                  scan_string_u del: escape.simps scan_string.simps)
        next
          case ps: False
          let ?n = "utf8_len (c # s)"
          have plain: "\<forall>b \<in> set (take ?n (c # s)). \<not> byte_in b 0x00 0x7F"
            using len high by (intro utf8_len_high) simp_all
          have "scan_string (escape (c # s) @ CHR 0x22 # rest) acc =
              scan_string (take ?n (c # s) @ escape (drop ?n (c # s)) @ CHR 0x22 # rest) acc"
            by (simp add: escape_raw [OF high len ls ps] del: escape.simps scan_string.simps)
          also have "\<dots> =
              scan_string (escape (drop ?n (c # s)) @ CHR 0x22 # rest) (rev (take ?n (c # s)) @ acc)"
            by (rule scan_string_plain [OF plain])
          also have "\<dots> = Some (rev (rev (take ?n (c # s)) @ acc) @ escape (drop ?n (c # s)), rest)"
            by (rule "2.IH"(5) [OF high len ls ps])
          also have "\<dots> = Some (rev acc @ escape (c # s), rest)"
            by (simp add: escape_raw [OF high len ls ps] del: escape.simps)
          finally show ?thesis .
        qed
      qed
    qed
  qed
qed

lemma unquote_escaped:
  assumes "byte_in c 0x00 0x7F" and "\<not> html_safe c"
  shows "unquote (escaped c @ rest) = c # unquote rest"
proof -
  let ?h1 = "hex_digit (of_char c div 16)" and ?h2 = "hex_digit (of_char c mod 16)"
  have small: "of_char c div 16 < (16 :: nat)" "of_char c mod 16 < (16 :: nat)"
    "(of_char c :: nat) \<le> 0x7F"
    using assms(1) by (simp_all add: byte_in_def)
  then have hex: "is_hex ?h1" "is_hex ?h2" "hex_val ?h1 = of_char c div 16"
    "hex_val ?h2 = of_char c mod 16"
    by (simp_all add: hex_digit_props)
  have zero: "is_hex CHR ''0''" "hex_val CHR ''0'' = 0"
    by (simp_all add: is_hex_def hex_val_def is_digit_def)
  have u: "getu4 (CHR 0x5C # CHR ''u'' # CHR ''0'' # CHR ''0'' # ?h1 # ?h2 # rest) = Some (of_char c)"
    using hex zero by simp
  have rune: "EncodeRune (of_char c) = [c]"
    using small(3) by (simp add: EncodeRune_def)
  have "unquote (CHR 0x5C # CHR ''u'' # CHR ''0'' # CHR ''0'' # ?h1 # ?h2 # rest) = c # unquote rest"
    using small(3) by (subst unquote.simps) (simp add: u rune del: getu4.simps)
  moreover have "unquote (CHR 0x5C # e # rest) = escape_byte e # unquote rest" if "e \<noteq> CHR ''u''" for e
    using that by simp
  ultimately show ?thesis
    by (simp add: escaped_def escape_byte_def)
qed

lemma EncodeRune_separators:
  "EncodeRune 0x2028 = [CHR 0xE2, CHR 0x80, CHR 0xA8]"
  "EncodeRune 0x2029 = [CHR 0xE2, CHR 0x80, CHR 0xA9]"
  by (simp_all add: EncodeRune_def char_of_eq_iff)

lemma getu4_separators:
  "getu4 (CHR 0x5C # ''u2028'' @ rest) = Some 0x2028"
  "getu4 (CHR 0x5C # ''u2029'' @ rest) = Some 0x2029"
  by (simp_all add: is_hex_def hex_val_def is_digit_def less_eq_char_def)

lemma unquote_separators:
  "unquote (CHR 0x5C # ''u2028'' @ rest) = [CHR 0xE2, CHR 0x80, CHR 0xA8] @ unquote rest"
  "unquote (CHR 0x5C # ''u2029'' @ rest) = [CHR 0xE2, CHR 0x80, CHR 0xA9] @ unquote rest"
  using getu4_separators [of rest]
  by (simp_all add: EncodeRune_separators del: getu4.simps)

lemma unquote_escape: "valid_utf8 s \<Longrightarrow> unquote (escape s) = s"
proof (induction s rule: escape.induct)
  case 1
  show ?case by simp
next
  case (2 c s)
  let ?n = "utf8_len (c # s)"
  from "2.prems" have len: "?n \<noteq> 0" and rest: "valid_utf8 (drop ?n (c # s))"
    by (simp_all add: valid_utf8.simps split: if_splits)
  show ?case
  proof (cases "byte_in c 0x00 0x7F")
    case ascii: True
    with rest have valid: "valid_utf8 s"
      by (simp add: utf8_len_ascii)
    show ?thesis
    proof (cases "html_safe c")
      case True
      then have "c \<noteq> CHR 0x5C"
        by (auto simp: html_safe_def)
      with ascii True "2.IH"(1) [OF ascii valid] show ?thesis
        by (simp add: escape_ascii [OF ascii] del: escape.simps)
    next
      case False
      with "2.IH"(1) [OF ascii valid] show ?thesis
        by (simp add: escape_ascii [OF ascii] unquote_escaped [OF ascii False]
              del: escape.simps unquote.simps)
    qed
  next
    case high: False
    have whole: "take ?n (c # s) @ drop ?n (c # s) = c # s"
      by simp
    have three: "?n = 3" if sep: "take 3 (c # s) = [CHR 0xE2, CHR 0x80, CHR 0xA8] \<or>
        take 3 (c # s) = [CHR 0xE2, CHR 0x80, CHR 0xA9]"
    proof -
      from sep have c: "c = CHR 0xE2"
        by auto
      have "utf8_len (c # s) = ?n"
        by simp
      from this len high show ?thesis
      proof (cases rule: utf8_len_cases)
        case (two b1 r)
        with c show ?thesis by (simp add: byte_in_def)
      next
        case (three b1 b2 r)
        then show ?thesis by simp
      next
        case (four b1 b2 b3 r)
        with c show ?thesis by (simp add: byte_in_def)
      qed
    qed
    show ?thesis
    proof (cases "take 3 (c # s) = [CHR 0xE2, CHR 0x80, CHR 0xA8]")
      case True
      with three have n: "?n = 3" by simp
      with rest have "valid_utf8 (drop 2 s)" by simp
      then have IH: "unquote (escape (drop 2 s)) = drop 2 s"
        by (rule "2.IH"(3) [OF high len True])
      have "take 3 (c # s) @ drop 3 (c # s) = c # s"
        by (rule append_take_drop_id)
      with True have shape: "[CHR 0xE2, CHR 0x80, CHR 0xA8] @ drop 2 s = c # s"
        by simp
      have "unquote (escape (c # s)) = unquote (CHR 0x5C # ''u2028'' @ escape (drop 2 s))"
        by (simp only: escape_line_separator [OF high len True])
      also have "\<dots> = [CHR 0xE2, CHR 0x80, CHR 0xA8] @ unquote (escape (drop 2 s))"
        by (rule unquote_separators)
      also have "\<dots> = c # s"
        by (simp only: IH shape)
      finally show ?thesis .
    next
      case ls: False
      show ?thesis
      proof (cases "take 3 (c # s) = [CHR 0xE2, CHR 0x80, CHR 0xA9]")
        case True
        with three have n: "?n = 3" by simp
        with rest have "valid_utf8 (drop 2 s)" by simp
        then have IH: "unquote (escape (drop 2 s)) = drop 2 s"
          by (rule "2.IH"(4) [OF high len ls True])
        have "take 3 (c # s) @ drop 3 (c # s) = c # s"
          by (rule append_take_drop_id)
        with True have shape: "[CHR 0xE2, CHR 0x80, CHR 0xA9] @ drop 2 s = c # s"
          by simp
        have "unquote (escape (c # s)) = unquote (CHR 0x5C # ''u2029'' @ escape (drop 2 s))"
          by (simp only: escape_paragraph_separator [OF high len ls True])
        also have "\<dots> = [CHR 0xE2, CHR 0x80, CHR 0xA9] @ unquote (escape (drop 2 s))"
          by (rule unquote_separators)
        also have "\<dots> = c # s"
          by (simp only: IH shape)
        finally show ?thesis .
      next
        case ps: False
        let ?E = "escape (drop ?n (c # s))"
        have IH: "unquote ?E = drop ?n (c # s)"
          using "2.IH"(5) [OF high len ls ps rest] .
        have le: "?n \<le> length (c # s)"
          by (rule utf8_len_le)
        obtain bs where bs: "take ?n (c # s) = c # bs"
          using len by (cases ?n) simp_all
        have n': "utf8_len (c # bs @ ?E) = ?n"
          using utf8_len_prefix [of c s ?n ?E] len high bs by simp
        have lenbs: "length (c # bs) = ?n"
          using le bs by (metis length_take min.absorb2)
        have c: "c \<noteq> CHR 0x5C"
          using high by (auto simp: byte_in_def)
        have "unquote (escape (c # s)) = unquote (c # bs @ ?E)"
          by (simp add: escape_raw [OF high len ls ps] bs del: escape.simps unquote.simps)
        also have "\<dots> = take ?n (c # bs @ ?E) @ unquote (drop ?n (c # bs @ ?E))"
          using c high len n' by (subst unquote.simps) simp
        also have "\<dots> = (c # bs) @ unquote ?E"
        proof -
          have "take (length (c # bs)) ((c # bs) @ ?E) = c # bs"
            and "drop (length (c # bs)) ((c # bs) @ ?E) = ?E"
            by simp_all
          then have "take ?n (c # bs @ ?E) = c # bs" and "drop ?n (c # bs @ ?E) = ?E"
            unfolding lenbs by simp_all
          then show ?thesis
            by (simp only:)
        qed
        also have "\<dots> = c # s"
          using IH bs whole by (simp del: unquote.simps escape.simps)
        finally show ?thesis .
      qed
    qed
  qed
qed

lemma lex_marshal_string:
  assumes "valid_utf8 s" and "0 < d"
  shows "lex d (marshal_string s @ rest) = cons_token (TValue (JString s)) (lex d rest)"
proof -
  have "scan_string (escape s @ CHR 0x22 # rest) [] = Some (escape s, rest)"
    using scan_string_escape [of s rest "[]"] by simp
  with assms show ?thesis
    by (simp add: marshal_string_def is_space_def unquote_escape)
qed

section \<open>Cards: marshalling and decoding\<close>

lemma cons_token_prepend: "cons_token t r = prepend [t] r"
  by (simp add: cons_token_def prepend_def)


lemma prepend_Some: "prepend ts (Some (us, rest)) = Some (ts @ us, rest)"
  by (simp add: prepend_def)

lemma lex_punctuation:
  "d < 10000 \<Longrightarrow> lex d (CHR ''{'' # s) = prepend [TLBrace] (lex (d + 1) s)"
  "d < 10000 \<Longrightarrow> lex d (CHR ''['' # s) = prepend [TLBrack] (lex (d + 1) s)"
  "1 < d \<Longrightarrow> lex d (CHR ''}'' # s) = prepend [TRBrace] (lex (d - 1) s)"
  "lex (Suc 0) (CHR '']'' # s) = Some ([TRBrack], s)"
  "0 < d \<Longrightarrow> lex d (CHR '','' # s) = prepend [TComma] (lex d s)"
  "0 < d \<Longrightarrow> lex d (CHR '':'' # s) = prepend [TColon] (lex d s)"
  by (simp_all add: is_space_def cons_token_prepend)

lemma lex_string:
  "valid_utf8 s \<Longrightarrow> 0 < d \<Longrightarrow>
     lex d (marshal_string s @ rest) = prepend [TValue (JString s)] (lex d rest)"
  by (simp add: lex_marshal_string cons_token_prepend del: lex.simps)






lemma run_append: "run (xs @ ys) s = (case run xs s of None \<Rightarrow> None | Some s' \<Rightarrow> run ys s')"
  by (induction xs arbitrary: s) (simp_all split: option.splits)






section \<open>Properties of PUT /game followed by GET /game\<close>





section \<open>The deck of a new player, read back\<close>

lemma lex_strings:
  assumes "\<forall>s \<in> set xs. valid_utf8 s"
  shows "lex (Suc 0) (join (map marshal_string xs) @ CHR '']'' # rest) =
           Some (strings_tokens xs @ [TRBrack], rest)"
  using assms
proof (induction xs rule: strings_tokens.induct)
  case 1
  show ?case
    by (simp add: lex_punctuation del: lex.simps)
next
  case (2 s)
  then have "valid_utf8 s"
    by simp
  from lex_string [OF this, of "Suc 0" "CHR '']'' # rest"] show ?case
    by (simp add: lex_punctuation prepend_Some del: lex.simps)
next
  case (3 s s' ss)
  then have valid: "valid_utf8 s" and rest: "\<forall>s \<in> set (s' # ss). valid_utf8 s"
    by simp_all
  let ?tail = "join (map marshal_string (s' # ss)) @ CHR '']'' # rest"
  have "join (map marshal_string (s # s' # ss)) @ CHR '']'' # rest = marshal_string s @ CHR '','' # ?tail"
    by simp
  then have "lex (Suc 0) (join (map marshal_string (s # s' # ss)) @ CHR '']'' # rest) =
      prepend [TValue (JString s)] (prepend [TComma] (lex (Suc 0) ?tail))"
    by (simp add: lex_string [OF valid] lex_punctuation del: lex.simps)
  also have "\<dots> = prepend [TValue (JString s)] (prepend [TComma]
      (Some (strings_tokens (s' # ss) @ [TRBrack], rest)))"
    by (simp only: "3.IH" [OF rest])
  finally show ?case
    by (simp add: prepend_Some del: lex.simps)
qed

lemma run_strings:
  "xs \<noteq> [] \<Longrightarrow>
     run (strings_tokens xs) (BeginValue, InArray vs # st) =
       Some (EndValue, InArray (rev (map JString xs) @ vs) # st)"
proof (induction xs arbitrary: vs rule: strings_tokens.induct)
  case 1
  then show ?case by simp
next
  case (2 s)
  show ?case by simp
next
  case (3 s s' ss)
  have "run (strings_tokens (s # s' # ss)) (BeginValue, InArray vs # st) =
      run (strings_tokens (s' # ss)) (BeginValue, InArray (JString s # vs) # st)"
    by simp
  also have "\<dots> = Some (EndValue, InArray (rev (map JString (s' # ss)) @ JString s # vs) # st)"
    by (rule "3.IH") simp
  finally show ?case
    by simp
qed

lemma parse_strings:
  "parse_tokens (TLBrack # strings_tokens xs @ [TRBrack]) = Some (JArray (map JString xs))"
proof (cases xs)
  case Nil
  then show ?thesis
    by (simp add: parse_tokens_def)
next
  case (Cons s ss)
  show ?thesis
  proof (cases ss)
    case Nil
    with Cons show ?thesis
      by (simp add: parse_tokens_def)
  next
    case (Cons s' ss')
    have "run (TLBrack # TValue (JString s) # TComma # strings_tokens ss @ [TRBrack]) (BeginValue, []) =
        run (strings_tokens ss @ [TRBrack]) (BeginValue, [InArray [JString s]])"
      by simp
    also have "\<dots> = Some (Finished (JArray (JString s # map JString ss)), [])"
      using Cons run_strings [of ss "[JString s]" "[]"] by (simp only: run_append) simp
    finally show ?thesis
      using \<open>xs = s # ss\<close> Cons by (simp add: parse_tokens_def)
  qed
qed

lemma Unmarshal_marshal_strings:
  assumes "\<forall>s \<in> set xs. valid_utf8 s"
  shows "Unmarshal_Cards (marshal_strings xs) = (replicate (length xs) zero_Card, xs \<noteq> [])"
proof -
  have "lex 0 (marshal_strings xs) =
      prepend [TLBrack] (lex (Suc 0) (join (map marshal_string xs) @ CHR '']'' # []))"
    by (simp add: marshal_strings_def lex_punctuation del: lex.simps)
  then have "lex 0 (marshal_strings xs) = Some (TLBrack # strings_tokens xs @ [TRBrack], [])"
    by (simp only: lex_strings [OF assms] prepend_Some) simp
  then have "whole_value (marshal_strings xs) = Some (JArray (map JString xs))"
    by (simp add: whole_value_def first_value_def parse_strings)
  moreover have "map (fst \<circ> decode_Card) (map JString xs) = replicate (length xs) zero_Card"
    by (simp add: comp_def map_replicate_const)
  moreover have "list_ex (snd \<circ> decode_Card) (map JString xs) = (xs \<noteq> [])"
    by (cases xs) (simp_all add: list_ex_iff)
  ultimately show ?thesis
    by (simp add: Unmarshal_Cards_def)
qed

lemma valid_utf8_Characters: "\<forall>s \<in> set Characters. valid_utf8 s"
  by (simp add: Characters_def valid_utf8.simps utf8_len.simps byte_in_def)

text \<open>
  The deck of a new player is stored as the JSON array of its five strings, and read as a
  \<open>[]Card\<close>: each string is an element that fails to decode, so the first answer to a new
  player shows five cards with empty name and type, whatever was drawn.
\<close>

lemma new_player_first_read:
  assumes free: "db userName = None" and name: "userName \<noteq> []"
    and other: "userName \<noteq> ''leaderboard''" and ok: "leaderboard_ok db"
  shows "\<exists>lb. snd (gameHandler draws userName db) =
           GameResponse
             \<lparr>Score = 0, GameCards = replicate 5 zero_Card, HasDefuseCard = False, ActiveCard = None\<rparr> lb \<and>
           \<lparr>UserName = userName, UserScore = 0\<rparr> \<in> set lb"
proof -
  from initialize_seeds [OF free name other ok, of draws]
  obtain deck db' where deck: "length deck = 5" "set deck \<subseteq> set Characters"
    and init: "initialize draws userName db = Inr db'"
    and stored: "db' userName = Some (Hash [''score'' \<mapsto> ''0'', ''gameCards'' \<mapsto> marshal_strings deck,
                                      ''hasDefuseCard'' \<mapsto> ''0'', ''activeCard'' \<mapsto> []])"
    and mem: "members db' = (members db)(userName \<mapsto> 0)" and ok': "leaderboard_ok db'"
    by blast
  from deck(2) valid_utf8_Characters have "\<forall>s \<in> set deck. valid_utf8 s"
    by blast
  from Unmarshal_marshal_strings [OF this] deck(1)
  have cards: "Unmarshal_Cards (marshal_strings deck) = (replicate 5 zero_Card, True)"
    by auto
  have decoded: "decode_fields [''score'' \<mapsto> ''0'', ''gameCards'' \<mapsto> marshal_strings deck,
                                ''hasDefuseCard'' \<mapsto> ''0'', ''activeCard'' \<mapsto> []] =
      \<lparr>Score = 0, GameCards = replicate 5 zero_Card, HasDefuseCard = False, ActiveCard = None\<rparr>"
    by (simp add: decode_fields_def field_def Atoi_0 cards ParseBool_def)
  from mem have listed: "members db' userName = Some 0"
    by simp
  then obtain z where z: "db' ''leaderboard'' = Some (ZSet z)" "map_of z userName = Some 0"
    by (auto simp: members_def split: option.splits rvalue.splits)
  then have "(userName, 0) \<in> set (ranked z)"
    by (auto simp: set_ranked dest: map_of_SomeD)
  then have "entry_of (userName, 0) \<in> set (map entry_of (ranked z))"
    by auto
  then have entry: "\<lparr>UserName = userName, UserScore = 0\<rparr> \<in> set (map entry_of (ranked z))"
    by (simp add: entry_of_def int_of_float64_def)
  have "gameHandler draws userName db =
      (db', GameResponse
         \<lparr>Score = 0, GameCards = replicate 5 zero_Card, HasDefuseCard = False, ActiveCard = None\<rparr>
         (map entry_of (ranked z)))"
    by (simp add: gameHandler_def init HGetAll_def stored decoded snapshot_ranked z(1))
  with entry show ?thesis
    by auto
qed

end
